theory Spec2Isabelle
  imports Main
begin

section \<open>Data model of game.py\<close>

text \<open>
  The program uses four string constants as an enumeration: \<^verbatim>\<open>' '\<close> (empty cell),
  \<^verbatim>\<open>'X'\<close>, \<^verbatim>\<open>'O'\<close> and \<^verbatim>\<open>"DRAW"\<close>. Cells, player symbols, the field
  \<^verbatim>\<open>vainqueur\<close> and the cells of the virtual grid \<^verbatim>\<open>global_p\<close> all hold such strings,
  and the code compares them with each other freely, so they share one type here.
  The constructors \<open>SymX\<close> and \<open>SymO\<close> stand for \<^verbatim>\<open>'X'\<close> and \<^verbatim>\<open>'O'\<close>.
  Python's \<^verbatim>\<open>None\<close> in \<^verbatim>\<open>vainqueur\<close> and \<^verbatim>\<open>plateau_actif\<close> is \<open>None\<close> of an option type.
\<close>

datatype chaine = Vide | SymX | SymO | DRAW

text \<open>
  Indices are Python integers. Every indexed read of the source happens either after a
  range check \<^verbatim>\<open>0 <= i < 3\<close> or inside a \<^verbatim>\<open>range(3)\<close> loop, so \<open>at2\<close> and \<open>set2\<close> are only
  ever applied to indices 0, 1, 2 of a 3 x 3 list of lists; the one exception, the
  unpacking of \<^verbatim>\<open>plateau_actif\<close>, is covered by the invariant \<open>bien_forme\<close> below.
\<close>

abbreviation range3 :: "int list" where
  "range3 \<equiv> [0, 1, 2]"

definition at2 :: "'a list list \<Rightarrow> int \<Rightarrow> int \<Rightarrow> 'a" where
  "at2 g l c = g ! nat l ! nat c"

definition set2 :: "'a list list \<Rightarrow> int \<Rightarrow> int \<Rightarrow> 'a \<Rightarrow> 'a list list" where
  "set2 g l c v = g[nat l := (g ! nat l)[nat c := v]]"

record petit_plateau =
  plateau :: "chaine list list"
  vainqueur :: "chaine option"
  jeu_termine :: bool

type_synonym coup = "int \<times> int \<times> int \<times> int"

record morpion_ultime =
  plateaux :: "petit_plateau list list"
  joueur_courant :: chaine
  plateau_actif :: "(int \<times> int) option"
  jeu_termine_g :: bool
  vainqueur_g :: "chaine option"

section \<open>PetitPlateau\<close>

definition pp_reinitialiser :: petit_plateau where
  "pp_reinitialiser =
     \<lparr>plateau = map (\<lambda>_. map (\<lambda>_. Vide) range3) range3,
      vainqueur = None,
      jeu_termine = False\<rparr>"

definition pp_coup_valide :: "petit_plateau \<Rightarrow> int \<Rightarrow> int \<Rightarrow> bool" where
  "pp_coup_valide sp ligne colonne \<longleftrightarrow>
     0 \<le> ligne \<and> ligne < 3 \<and>
     0 \<le> colonne \<and> colonne < 3 \<and>
     at2 (plateau sp) ligne colonne = Vide \<and>
     \<not> jeu_termine sp"

definition pp_est_nul :: "petit_plateau \<Rightarrow> bool" where
  "pp_est_nul sp \<longleftrightarrow>
     list_all (\<lambda>i. list_all (\<lambda>j. at2 (plateau sp) i j \<noteq> Vide) range3) range3"

text \<open>
  \<^verbatim>\<open>verifier_etat\<close>: the loop over \<^verbatim>\<open>i\<close> tests row \<^verbatim>\<open>i\<close> and then column \<^verbatim>\<open>i\<close>; both
  branches perform the same assignment and return, so the loop is the existential over
  \<^verbatim>\<open>range(3)\<close>. Then the two diagonals, then the fill test.
\<close>

definition pp_verifier_etat :: "petit_plateau \<Rightarrow> chaine \<Rightarrow> petit_plateau" where
  "pp_verifier_etat sp joueur =
     (let p = plateau sp in
      if list_ex (\<lambda>i. list_all (\<lambda>j. at2 p i j = joueur) range3 \<or>
                       list_all (\<lambda>j. at2 p j i = joueur) range3) range3
      then sp\<lparr>vainqueur := Some joueur, jeu_termine := True\<rparr>
      else if (at2 p 0 0 = at2 p 1 1 \<and> at2 p 1 1 = at2 p 2 2 \<and> at2 p 2 2 = joueur) \<or>
              (at2 p 0 2 = at2 p 1 1 \<and> at2 p 1 1 = at2 p 2 0 \<and> at2 p 2 0 = joueur)
      then sp\<lparr>vainqueur := Some joueur, jeu_termine := True\<rparr>
      else if pp_est_nul sp
      then sp\<lparr>vainqueur := Some DRAW, jeu_termine := True\<rparr>
      else sp)"

definition pp_jouer_coup ::
  "petit_plateau \<Rightarrow> int \<Rightarrow> int \<Rightarrow> chaine \<Rightarrow> bool \<times> petit_plateau" where
  "pp_jouer_coup sp ligne colonne joueur =
     (if pp_coup_valide sp ligne colonne
      then (True, pp_verifier_etat (sp\<lparr>plateau := set2 (plateau sp) ligne colonne joueur\<rparr>) joueur)
      else (False, sp))"

definition pp_dupliquer :: "petit_plateau \<Rightarrow> petit_plateau" where
  "pp_dupliquer sp =
     \<lparr>plateau = map (\<lambda>ligne. ligne) (plateau sp),
      vainqueur = vainqueur sp,
      jeu_termine = jeu_termine sp\<rparr>"

section \<open>MorpionUltime\<close>

definition mu_reinitialiser :: morpion_ultime where
  "mu_reinitialiser =
     \<lparr>plateaux = map (\<lambda>_. map (\<lambda>_. pp_reinitialiser) range3) range3,
      joueur_courant = SymX,
      plateau_actif = None,
      jeu_termine_g = False,
      vainqueur_g = None\<rparr>"

definition mu_coup_valide :: "morpion_ultime \<Rightarrow> int \<Rightarrow> int \<Rightarrow> int \<Rightarrow> int \<Rightarrow> bool" where
  "mu_coup_valide g sp_l sp_c cel_l cel_c =
     (if \<not> (0 \<le> sp_l \<and> sp_l < 3 \<and> 0 \<le> sp_c \<and> sp_c < 3) then False
      else let pl = at2 (plateaux g) sp_l sp_c in
        if jeu_termine pl then False
        else if plateau_actif g \<noteq> None \<and> Some (sp_l, sp_c) \<noteq> plateau_actif g then False
        else pp_coup_valide pl cel_l cel_c)"

text \<open>
  \<^verbatim>\<open>mettre_a_jour_etat_global\<close>. Step 1 builds \<^verbatim>\<open>global_p\<close>: the \<^verbatim>\<open>vainqueur\<close> of each
  sub-board, with \<^verbatim>\<open>None\<close> replaced by \<^verbatim>\<open>' '\<close>; a drawn sub-board keeps \<^verbatim>\<open>"DRAW"\<close>.
\<close>

definition global_p :: "morpion_ultime \<Rightarrow> chaine list list" where
  "global_p g =
     map (\<lambda>i. map (\<lambda>j. case vainqueur (at2 (plateaux g) i j) of
                           None \<Rightarrow> Vide | Some vainq \<Rightarrow> vainq) range3) range3"

text \<open>
  Step 2, the loop over \<^verbatim>\<open>i\<close>: row \<^verbatim>\<open>i\<close> is tested before column \<^verbatim>\<open>i\<close>, and the first
  hit returns, so the order is kept by a recursion over \<^verbatim>\<open>range(3)\<close>.
\<close>

fun ligne_gagnante :: "chaine list list \<Rightarrow> int list \<Rightarrow> chaine option" where
  "ligne_gagnante gp [] = None"
| "ligne_gagnante gp (i # reste) =
     (if at2 gp i 0 \<noteq> Vide \<and> at2 gp i 0 \<noteq> DRAW \<and>
         list_all (\<lambda>j. at2 gp i j = at2 gp i 0) range3
      then Some (at2 gp i 0)
      else if at2 gp 0 i \<noteq> Vide \<and> at2 gp 0 i \<noteq> DRAW \<and>
         list_all (\<lambda>j. at2 gp j i = at2 gp 0 i) range3
      then Some (at2 gp 0 i)
      else ligne_gagnante gp reste)"

definition combinaisons :: "(int \<times> int) list list" where
  "combinaisons =
     [[(0,0),(0,1),(0,2)], [(1,0),(1,1),(1,2)], [(2,0),(2,1),(2,2)],
      [(0,0),(1,0),(2,0)], [(0,1),(1,1),(2,1)], [(0,2),(1,2),(2,2)],
      [(0,0),(1,1),(2,2)], [(0,2),(1,1),(2,0)]]"

definition combo_ouverte :: "chaine list list \<Rightarrow> chaine \<Rightarrow> (int \<times> int) list \<Rightarrow> bool" where
  "combo_ouverte gp joueur combo \<longleftrightarrow>
     list_all (\<lambda>(r, c). at2 gp r c \<in> set [joueur, Vide]) combo"

definition peut_encore_gagner :: "chaine list list \<Rightarrow> chaine \<Rightarrow> bool" where
  "peut_encore_gagner gp joueur \<longleftrightarrow> list_ex (combo_ouverte gp joueur) combinaisons"

text \<open>
  Step 2 as a whole: the loop over rows and columns, then the main diagonal, then the
  secondary diagonal; the value is the symbol assigned to \<^verbatim>\<open>self.vainqueur\<close> by the
  first test that succeeds, \<open>None\<close> when the code falls through to step 3.
\<close>

definition gagnant_global :: "chaine list list \<Rightarrow> chaine option" where
  "gagnant_global gp =
     (case ligne_gagnante gp range3 of
        Some v \<Rightarrow> Some v
      | None \<Rightarrow>
        if at2 gp 0 0 \<noteq> Vide \<and> at2 gp 0 0 \<noteq> DRAW \<and>
           at2 gp 0 0 = at2 gp 1 1 \<and> at2 gp 1 1 = at2 gp 2 2
        then Some (at2 gp 0 0)
        else if at2 gp 0 2 \<noteq> Vide \<and> at2 gp 0 2 \<noteq> DRAW \<and>
           at2 gp 0 2 = at2 gp 1 1 \<and> at2 gp 1 1 = at2 gp 2 0
        then Some (at2 gp 0 2)
        else None)"

definition tous_termines :: "morpion_ultime \<Rightarrow> bool" where
  "tous_termines g \<longleftrightarrow>
     list_all (\<lambda>i. list_all (\<lambda>j. jeu_termine (at2 (plateaux g) i j)) range3) range3"

definition mu_mettre_a_jour_etat_global :: "morpion_ultime \<Rightarrow> morpion_ultime" where
  "mu_mettre_a_jour_etat_global g =
     (let gp = global_p g in
      case gagnant_global gp of
        Some v \<Rightarrow> g\<lparr>vainqueur_g := Some v, jeu_termine_g := True\<rparr>
      | None \<Rightarrow>
        if tous_termines g
        then g\<lparr>jeu_termine_g := True, vainqueur_g := None\<rparr>
        else if \<not> peut_encore_gagner gp SymX \<and> \<not> peut_encore_gagner gp SymO
        then g\<lparr>jeu_termine_g := True, vainqueur_g := None\<rparr>
        else g)"

text \<open>
  \<^verbatim>\<open>jouer_coup\<close> returns the success flag together with the board after the call.
  The sub-board object is mutated in place by \<^verbatim>\<open>plateau.jouer_coup\<close>; here the new
  sub-board value is written back at \<^verbatim>\<open>(sp_l, sp_c)\<close>.
\<close>

definition mu_jouer_coup ::
  "morpion_ultime \<Rightarrow> int \<Rightarrow> int \<Rightarrow> int \<Rightarrow> int \<Rightarrow> bool \<times> morpion_ultime" where
  "mu_jouer_coup g sp_l sp_c cel_l cel_c =
     (if \<not> mu_coup_valide g sp_l sp_c cel_l cel_c \<or> jeu_termine_g g then (False, g)
      else
        let (ok, pl) = pp_jouer_coup (at2 (plateaux g) sp_l sp_c) cel_l cel_c (joueur_courant g);
            g1 = g\<lparr>plateaux := set2 (plateaux g) sp_l sp_c pl\<rparr>
        in if \<not> ok then (False, g1)
        else
          let g2 = mu_mettre_a_jour_etat_global g1;
              prochain = (cel_l, cel_c);
              g3 = g2\<lparr>plateau_actif :=
                     (if jeu_termine (at2 (plateaux g2) (fst prochain) (snd prochain))
                      then None else Some prochain)\<rparr>;
              g4 = (if \<not> jeu_termine_g g3
                    then g3\<lparr>joueur_courant := (if joueur_courant g3 = SymX then SymO else SymX)\<rparr>
                    else g3)
          in (True, g4))"

definition coups_du_plateau :: "petit_plateau \<Rightarrow> int \<Rightarrow> int \<Rightarrow> coup list" where
  "coups_du_plateau pl sp_l sp_c =
     concat (map (\<lambda>i. concat (map (\<lambda>j.
       if pp_coup_valide pl i j then [(sp_l, sp_c, i, j)] else []) range3)) range3)"

definition mu_obtenir_coups_valides :: "morpion_ultime \<Rightarrow> coup list" where
  "mu_obtenir_coups_valides g =
     (case plateau_actif g of
        Some (sp_l, sp_c) \<Rightarrow> coups_du_plateau (at2 (plateaux g) sp_l sp_c) sp_l sp_c
      | None \<Rightarrow>
          concat (map (\<lambda>sp_l. concat (map (\<lambda>sp_c.
            let pl = at2 (plateaux g) sp_l sp_c in
            if jeu_termine pl then [] else coups_du_plateau pl sp_l sp_c) range3)) range3))"

definition mu_dupliquer :: "morpion_ultime \<Rightarrow> morpion_ultime" where
  "mu_dupliquer g =
     \<lparr>plateaux = map (\<lambda>i. map (\<lambda>j. pp_dupliquer (at2 (plateaux g) i j)) range3) range3,
      joueur_courant = joueur_courant g,
      plateau_actif = plateau_actif g,
      jeu_termine_g = jeu_termine_g g,
      vainqueur_g = vainqueur_g g\<rparr>"

section \<open>Sequences of calls\<close>

text \<open>
  A run of \<^verbatim>\<open>PetitPlateau.jouer_coup\<close> calls on one sub-board: the list of returned flags
  and the sub-board after the last call.
\<close>

fun pp_jouer_suite ::
  "petit_plateau \<Rightarrow> (int \<times> int \<times> chaine) list \<Rightarrow> bool list \<times> petit_plateau" where
  "pp_jouer_suite sp [] = ([], sp)"
| "pp_jouer_suite sp ((l, c, joueur) # reste) =
     (let (ok, sp1) = pp_jouer_coup sp l c joueur;
          (oks, sp2) = pp_jouer_suite sp1 reste
      in (ok # oks, sp2))"

text \<open>
  A run of \<^verbatim>\<open>MorpionUltime.jouer_coup\<close> calls on one board. Besides the board, the run
  remembers the last move that was accepted (\<open>None\<close> while no move has been accepted).
\<close>

fun mu_jouer_suite ::
  "morpion_ultime \<Rightarrow> coup option \<Rightarrow> coup list \<Rightarrow> morpion_ultime \<times> coup option" where
  "mu_jouer_suite g dernier [] = (g, dernier)"
| "mu_jouer_suite g dernier ((sp_l, sp_c, cel_l, cel_c) # reste) =
     (let (ok, g1) = mu_jouer_coup g sp_l sp_c cel_l cel_c
      in if ok then mu_jouer_suite g1 (Some (sp_l, sp_c, cel_l, cel_c)) reste
         else mu_jouer_suite g1 dernier reste)"

section \<open>Evaluation functions of ai.py\<close>

definition adversaire_de :: "chaine \<Rightarrow> chaine" where
  "adversaire_de joueur = (if joueur = SymX then SymO else SymX)"

definition evaluer_ligne :: "chaine list \<Rightarrow> chaine \<Rightarrow> int" where
  "evaluer_ligne ligne joueur =
     (let adversaire = adversaire_de joueur in
      if joueur \<in> set ligne \<and> adversaire \<in> set ligne then 0
      else if joueur \<in> set ligne then 10 ^ count_list ligne joueur
      else if adversaire \<in> set ligne then - (10 ^ count_list ligne adversaire)
      else 0)"

definition evaluer_sous_plateau :: "petit_plateau \<Rightarrow> chaine \<Rightarrow> int" where
  "evaluer_sous_plateau pl joueur =
     (let p = plateau pl in
      (if at2 p 1 1 = joueur then 20
       else if at2 p 1 1 = adversaire_de joueur then - 20
       else 0)
      + sum_list (map (\<lambda>r. evaluer_ligne (p ! nat r) joueur) range3)
      + sum_list (map (\<lambda>c. evaluer_ligne (map (\<lambda>r. at2 p r c) range3) joueur) range3)
      + evaluer_ligne (map (\<lambda>i. at2 p i i) range3) joueur
      + evaluer_ligne (map (\<lambda>i. at2 p i (2 - i)) range3) joueur)"

text \<open>
  The body of the first double loop of \<^verbatim>\<open>evaluer_ultime\<close>: what one sub-board adds to
  the score.
\<close>

definition contribution_sous_plateau :: "petit_plateau \<Rightarrow> chaine \<Rightarrow> int" where
  "contribution_sous_plateau sp joueur =
     (if vainqueur sp = Some joueur then 10000
      else if vainqueur sp = Some (adversaire_de joueur) then - 10000
      else evaluer_sous_plateau sp joueur)"

text \<open>
  The virtual grid \<^verbatim>\<open>pg\<close> of \<^verbatim>\<open>evaluer_ultime\<close>: unlike \<^verbatim>\<open>global_p\<close> it maps
  \<^verbatim>\<open>"DRAW"\<close> to \<^verbatim>\<open>' '\<close>.
\<close>

definition pg_de :: "morpion_ultime \<Rightarrow> chaine list list" where
  "pg_de g =
     map (\<lambda>i. map (\<lambda>j. case vainqueur (at2 (plateaux g) i j) of
                           None \<Rightarrow> Vide
                         | Some w \<Rightarrow> if w \<noteq> DRAW then w else Vide) range3) range3"

definition evaluer_ultime :: "morpion_ultime \<Rightarrow> chaine \<Rightarrow> int" where
  "evaluer_ultime g joueur =
     (let pg = pg_de g in
      sum_list (map (\<lambda>i. sum_list (map (\<lambda>j.
          contribution_sous_plateau (at2 (plateaux g) i j) joueur) range3)) range3)
      + sum_list (map (\<lambda>r. evaluer_ligne (pg ! nat r) joueur * 10) range3)
      + sum_list (map (\<lambda>c. evaluer_ligne (map (\<lambda>r. at2 pg r c) range3) joueur * 10) range3)
      + evaluer_ligne (map (\<lambda>i. at2 pg i i) range3) joueur * 10
      + evaluer_ligne (map (\<lambda>i. at2 pg i (2 - i)) range3) joueur * 10)"

definition lignes_de :: "petit_plateau \<Rightarrow> chaine list list" where
  "lignes_de sp =
     plateau sp
     @ map (\<lambda>c. map (\<lambda>r. at2 (plateau sp) r c) range3) range3
     @ [map (\<lambda>k. at2 (plateau sp) k k) range3]
     @ [map (\<lambda>k. at2 (plateau sp) k (2 - k)) range3]"

definition fourches :: "petit_plateau \<Rightarrow> chaine \<Rightarrow> int" where
  "fourches sp joueur =
     (let men_joueur = length (filter (\<lambda>ligne. count_list ligne joueur = 2 \<and>
                                                 count_list ligne Vide = 1) (lignes_de sp));
          men_adv = length (filter (\<lambda>ligne. count_list ligne (adversaire_de joueur) = 2 \<and>
                                              count_list ligne Vide = 1) (lignes_de sp))
      in (if men_joueur \<ge> 2 then 300 else 0) + (if men_adv \<ge> 2 then - 300 else 0))"

definition evaluer_difficile :: "morpion_ultime \<Rightarrow> chaine \<Rightarrow> int" where
  "evaluer_difficile g joueur =
     evaluer_ultime g joueur
     + int (length (mu_obtenir_coups_valides g))
     + sum_list (map (\<lambda>i. sum_list (map (\<lambda>j.
          let sp = at2 (plateaux g) i j in
          if jeu_termine sp then 0 else fourches sp joueur) range3)) range3)"

section \<open>Scores with infinities\<close>

text \<open>
  The searches start from \<^verbatim>\<open>-math.inf\<close> and \<^verbatim>\<open>math.inf\<close> and otherwise handle the
  integers returned by the evaluation functions. \<open>sc_max a b\<close> and \<open>sc_min a b\<close> are
  Python's \<^verbatim>\<open>max(a, b)\<close> and \<^verbatim>\<open>min(a, b)\<close>, which keep the first argument on a tie.
\<close>

datatype score = MoinsInf | Fini int | PlusInf

fun sc_lt :: "score \<Rightarrow> score \<Rightarrow> bool" where
  "sc_lt MoinsInf MoinsInf = False"
| "sc_lt MoinsInf _ = True"
| "sc_lt (Fini a) (Fini b) = (a < b)"
| "sc_lt (Fini a) PlusInf = True"
| "sc_lt (Fini a) MoinsInf = False"
| "sc_lt PlusInf _ = False"

definition sc_max :: "score \<Rightarrow> score \<Rightarrow> score" where
  "sc_max a b = (if sc_lt a b then b else a)"

definition sc_min :: "score \<Rightarrow> score \<Rightarrow> score" where
  "sc_min a b = (if sc_lt b a then b else a)"

section \<open>The three strategies\<close>

text \<open>
  \<^verbatim>\<open>clone = partie.dupliquer(); clone.jouer_coup(*mv)\<close>: the clone after the call. The
  flag returned by \<^verbatim>\<open>jouer_coup\<close> is dropped by every caller in ai.py.
\<close>

definition simuler :: "morpion_ultime \<Rightarrow> coup \<Rightarrow> morpion_ultime" where
  "simuler partie mv =
     (case mv of (sp_l, sp_c, cel_l, cel_c) \<Rightarrow>
        snd (mu_jouer_coup (mu_dupliquer partie) sp_l sp_c cel_l cel_c))"

text \<open>
  \<^verbatim>\<open>IAFacile.get_move\<close>. The loop state is \<^verbatim>\<open>(meilleur_score, meilleur_coup)\<close>; the
  function returns \<^verbatim>\<open>meilleur_coup\<close>.
\<close>

fun facile_boucle ::
  "chaine \<Rightarrow> morpion_ultime \<Rightarrow> coup list \<Rightarrow> score \<times> coup option \<Rightarrow> score \<times> coup option" where
  "facile_boucle joueur partie [] etat = etat"
| "facile_boucle joueur partie (mv # reste) (meilleur_score, meilleur_coup) =
     (let sc = Fini (evaluer_ultime (simuler partie mv) joueur) in
      if sc_lt meilleur_score sc
      then facile_boucle joueur partie reste (sc, Some mv)
      else facile_boucle joueur partie reste (meilleur_score, meilleur_coup))"

definition ia_facile_get_move :: "chaine \<Rightarrow> morpion_ultime \<Rightarrow> coup option" where
  "ia_facile_get_move joueur partie =
     snd (facile_boucle joueur partie (mu_obtenir_coups_valides partie) (MoinsInf, None))"

text \<open>
  \<^verbatim>\<open>IAMoyenne.minimax\<close>. The source counts \<^verbatim>\<open>profondeur\<close> up to \<^verbatim>\<open>profondeur_max\<close>;
  here the argument \<open>reste\<close> is \<^verbatim>\<open>profondeur_max - profondeur\<close>, so that the test
  \<^verbatim>\<open>profondeur == self.profondeur_max\<close> is \<open>reste = 0\<close> and the recursive call with
  \<^verbatim>\<open>profondeur + 1\<close> is the call on \<open>reste - 1\<close>. \<^verbatim>\<open>get_move\<close> starts at
  \<^verbatim>\<open>profondeur = 1\<close> with \<^verbatim>\<open>profondeur_max = 3\<close>.
\<close>

fun moy_minimax :: "chaine \<Rightarrow> nat \<Rightarrow> morpion_ultime \<Rightarrow> bool \<Rightarrow> score" where
  "moy_minimax joueur 0 partie est_max = Fini (evaluer_ultime partie joueur)"
| "moy_minimax joueur (Suc reste) partie est_max =
     (if jeu_termine_g partie then Fini (evaluer_ultime partie joueur)
      else if est_max then
        fold (\<lambda>mv meilleur. sc_max meilleur (moy_minimax joueur reste (simuler partie mv) False))
             (mu_obtenir_coups_valides partie) MoinsInf
      else
        fold (\<lambda>mv pire. sc_min pire (moy_minimax joueur reste (simuler partie mv) True))
             (mu_obtenir_coups_valides partie) PlusInf)"

text \<open>
  \<^verbatim>\<open>random.choice(seq)\<close> raises \<^verbatim>\<open>IndexError\<close> on an empty sequence and otherwise
  returns the element at an index drawn below \<^verbatim>\<open>len(seq)\<close>. The draw is the explicit
  argument \<open>k\<close>.
\<close>

datatype py_error = IndexError

definition choice :: "nat \<Rightarrow> 'a list \<Rightarrow> py_error + 'a" where
  "choice k seq = (if seq = [] then Inl IndexError else Inr (seq ! (k mod length seq)))"

definition moy_profondeur_max :: nat where
  "moy_profondeur_max = 3"

fun moy_boucle ::
  "chaine \<Rightarrow> morpion_ultime \<Rightarrow> coup list \<Rightarrow> score \<times> coup list \<Rightarrow> score \<times> coup list" where
  "moy_boucle joueur partie [] etat = etat"
| "moy_boucle joueur partie (mv # reste) (meilleur_score, meilleurs) =
     (let sc = moy_minimax joueur (moy_profondeur_max - 1) (simuler partie mv) False in
      if sc_lt meilleur_score sc
      then moy_boucle joueur partie reste (sc, [mv])
      else if sc = meilleur_score
      then moy_boucle joueur partie reste (meilleur_score, meilleurs @ [mv])
      else moy_boucle joueur partie reste (meilleur_score, meilleurs))"

text \<open>
  \<^verbatim>\<open>IAMoyenne.get_move\<close>. The two random draws are arguments: \<open>erreur\<close> is the outcome
  of \<^verbatim>\<open>random.random() < self.taux_erreur_strategique\<close>, \<open>k\<close> the draw of the one
  \<^verbatim>\<open>random.choice\<close> that the call executes. An exception is the left summand.
\<close>

definition ia_moyenne_get_move ::
  "chaine \<Rightarrow> bool \<Rightarrow> nat \<Rightarrow> morpion_ultime \<Rightarrow> py_error + coup" where
  "ia_moyenne_get_move joueur erreur k partie =
     (if erreur then choice k (mu_obtenir_coups_valides partie)
      else choice k (snd (moy_boucle joueur partie (mu_obtenir_coups_valides partie)
                            (MoinsInf, []))))"

text \<open>
  \<^verbatim>\<open>IADifficile.minimax\<close>, with \<open>reste\<close> as above. The two \<^verbatim>\<open>for\<close> loops with
  \<^verbatim>\<open>break\<close> are recursions over the remaining moves; \<open>enfant mv alpha beta\<close> is the
  value of the recursive call for move \<open>mv\<close>.
\<close>

fun ab_boucle_max ::
  "(coup \<Rightarrow> score \<Rightarrow> score \<Rightarrow> score) \<Rightarrow> coup list \<Rightarrow> score \<Rightarrow> score \<Rightarrow> score \<Rightarrow> score" where
  "ab_boucle_max enfant [] val alpha beta = val"
| "ab_boucle_max enfant (mv # reste) val alpha beta =
     (let val1 = sc_max val (enfant mv alpha beta);
          alpha1 = sc_max alpha val1
      in if \<not> sc_lt alpha1 beta then val1
         else ab_boucle_max enfant reste val1 alpha1 beta)"

fun ab_boucle_min ::
  "(coup \<Rightarrow> score \<Rightarrow> score \<Rightarrow> score) \<Rightarrow> coup list \<Rightarrow> score \<Rightarrow> score \<Rightarrow> score \<Rightarrow> score" where
  "ab_boucle_min enfant [] val alpha beta = val"
| "ab_boucle_min enfant (mv # reste) val alpha beta =
     (let val1 = sc_min val (enfant mv alpha beta);
          beta1 = sc_min beta val1
      in if \<not> sc_lt alpha beta1 then val1
         else ab_boucle_min enfant reste val1 alpha beta1)"

fun dif_minimax ::
  "chaine \<Rightarrow> nat \<Rightarrow> morpion_ultime \<Rightarrow> score \<Rightarrow> score \<Rightarrow> bool \<Rightarrow> score" where
  "dif_minimax joueur 0 partie alpha beta est_max = Fini (evaluer_difficile partie joueur)"
| "dif_minimax joueur (Suc reste) partie alpha beta est_max =
     (if jeu_termine_g partie then Fini (evaluer_difficile partie joueur)
      else if est_max then
        ab_boucle_max (\<lambda>mv a b. dif_minimax joueur reste (simuler partie mv) a b False)
          (mu_obtenir_coups_valides partie) MoinsInf alpha beta
      else
        ab_boucle_min (\<lambda>mv a b. dif_minimax joueur reste (simuler partie mv) a b True)
          (mu_obtenir_coups_valides partie) PlusInf alpha beta)"

definition dif_profondeur_max :: nat where
  "dif_profondeur_max = 4"

text \<open>
  \<^verbatim>\<open>IADifficile.get_move\<close>. The loop state is
  \<^verbatim>\<open>(meilleur_score, meilleur_coup, alpha)\<close>; \<^verbatim>\<open>beta\<close> stays \<^verbatim>\<open>math.inf\<close>.
\<close>

fun dif_boucle ::
  "chaine \<Rightarrow> morpion_ultime \<Rightarrow> coup list \<Rightarrow> score \<times> coup option \<times> score \<Rightarrow>
   score \<times> coup option \<times> score" where
  "dif_boucle joueur partie [] etat = etat"
| "dif_boucle joueur partie (mv # reste) (meilleur_score, meilleur_coup, alpha) =
     (let sc = dif_minimax joueur (dif_profondeur_max - 1) (simuler partie mv) alpha PlusInf False;
          (ms, mc) = (if sc_lt meilleur_score sc then (sc, Some mv)
                      else (meilleur_score, meilleur_coup))
      in dif_boucle joueur partie reste (ms, mc, sc_max alpha ms))"

definition ia_difficile_get_move :: "chaine \<Rightarrow> morpion_ultime \<Rightarrow> coup option" where
  "ia_difficile_get_move joueur partie =
     fst (snd (dif_boucle joueur partie (mu_obtenir_coups_valides partie)
                 (MoinsInf, None, MoinsInf)))"

section \<open>Shape invariant\<close>

definition grille33 :: "'a list list \<Rightarrow> bool" where
  "grille33 g \<longleftrightarrow> length g = 3 \<and> list_all (\<lambda>l. length l = 3) g"

definition bien_forme :: "morpion_ultime \<Rightarrow> bool" where
  "bien_forme g \<longleftrightarrow>
     grille33 (plateaux g) \<and>
     list_all (list_all (\<lambda>sp. grille33 (plateau sp))) (plateaux g) \<and>
     (case plateau_actif g of None \<Rightarrow> True
      | Some (l, c) \<Rightarrow> 0 \<le> l \<and> l < 3 \<and> 0 \<le> c \<and> c < 3)"

section \<open>Invariants used in the proofs\<close>

text \<open>
  A sub-board is coherent when its flag \<^verbatim>\<open>jeu_termine\<close> is set exactly when
  \<^verbatim>\<open>vainqueur\<close> is not \<^verbatim>\<open>None\<close>.
\<close>

definition coherent :: "petit_plateau \<Rightarrow> bool" where
  "coherent sp \<longleftrightarrow> (jeu_termine sp \<longleftrightarrow> vainqueur sp \<noteq> None)"

text \<open>
  The relation between a board \<open>g\<close>, the board \<open>g0\<close> the run started from and the last
  accepted move \<open>d\<close> that every run of \<^verbatim>\<open>jouer_coup\<close> calls maintains.
\<close>

definition contrainte_ok :: "morpion_ultime \<Rightarrow> morpion_ultime \<Rightarrow> coup option \<Rightarrow> bool" where
  "contrainte_ok g0 g d \<longleftrightarrow>
     (case d of None \<Rightarrow> g = g0
      | Some (a, b, r, c) \<Rightarrow>
          plateau_actif g = (if jeu_termine (at2 (plateaux g) r c) then None else Some (r, c)))"

text \<open>
  Following the words of the specification, not the code: a symbol can still win a triple
  when no sub-board of the triple is won by the opposite symbol, a drawn sub-board
  counting as open. Used only to state where the code differs.
\<close>

definition spec_combo_ouverte :: "morpion_ultime \<Rightarrow> chaine \<Rightarrow> (int \<times> int) list \<Rightarrow> bool" where
  "spec_combo_ouverte g s combo \<longleftrightarrow>
     list_all (\<lambda>(r, c). vainqueur (at2 (plateaux g) r c) \<noteq> Some (adversaire_de s)) combo"

text \<open>Example boards.\<close>

definition sp_nul :: petit_plateau where
  "sp_nul = \<lparr>plateau = [[SymX, SymO, SymX], [SymX, SymO, SymO], [SymO, SymX, SymX]],
            vainqueur = Some DRAW, jeu_termine = True\<rparr>"

definition sp_presque_nul :: petit_plateau where
  "sp_presque_nul = \<lparr>plateau = [[Vide, SymO, SymX], [SymX, SymO, SymO], [SymO, SymX, SymX]],
            vainqueur = None, jeu_termine = False\<rparr>"

definition exemple_diagonale :: morpion_ultime where
  "exemple_diagonale =
     \<lparr>plateaux = [[sp_nul, pp_reinitialiser, pp_reinitialiser],
                  [pp_reinitialiser, sp_nul, pp_reinitialiser],
                  [pp_reinitialiser, pp_reinitialiser, sp_presque_nul]],
      joueur_courant = SymX, plateau_actif = Some (2, 2),
      jeu_termine_g = False, vainqueur_g = None\<rparr>"

definition exemple_trois_nuls :: morpion_ultime where
  "exemple_trois_nuls =
     \<lparr>plateaux = [[sp_nul, pp_reinitialiser, pp_reinitialiser],
                  [pp_reinitialiser, sp_nul, pp_reinitialiser],
                  [pp_reinitialiser, pp_reinitialiser, sp_nul]],
      joueur_courant = SymX, plateau_actif = Some (2, 2),
      jeu_termine_g = False, vainqueur_g = None\<rparr>"

text \<open>
  Three complete games, each a list of moves played from the initial board; every move of
  each list is accepted. \<open>plateau_apres partie\<close> is the board the game ends on.
\<close>

definition partie_victoire :: "coup list" where
  "partie_victoire =
     [(2, 0, 0, 0), (0, 0, 2, 0), (2, 0, 1, 2), (1, 2, 1, 2), (1, 2, 0, 0), (0, 0, 0, 2),
      (0, 2, 0, 2), (0, 2, 1, 1), (1, 1, 0, 2), (0, 2, 2, 2), (2, 2, 0, 2), (0, 2, 0, 0),
      (0, 0, 0, 0), (0, 0, 1, 1), (1, 1, 0, 1), (0, 1, 1, 1), (1, 1, 1, 2), (1, 2, 0, 2),
      (1, 0, 2, 2), (2, 2, 1, 1), (1, 1, 0, 0), (0, 1, 2, 2), (2, 2, 0, 1), (0, 1, 0, 0)]"

definition partie_nulle_anticipee :: "coup list" where
  "partie_nulle_anticipee =
     [(2, 0, 1, 0), (1, 0, 0, 2), (0, 2, 1, 1), (1, 1, 2, 2), (2, 2, 0, 2), (0, 2, 2, 2),
      (2, 2, 2, 1), (2, 1, 1, 1), (1, 1, 1, 0), (1, 0, 1, 1), (1, 1, 2, 1), (2, 1, 0, 2),
      (0, 2, 0, 0), (0, 0, 1, 0), (1, 0, 2, 1), (2, 1, 2, 0), (2, 0, 0, 0), (0, 0, 1, 2),
      (1, 2, 0, 1), (0, 1, 1, 1), (1, 1, 0, 2), (0, 2, 1, 2), (1, 2, 1, 2), (1, 2, 0, 2),
      (0, 2, 2, 1), (0, 0, 1, 1), (1, 1, 0, 1), (0, 1, 0, 2), (0, 2, 0, 2), (0, 2, 0, 1),
      (0, 1, 2, 1), (1, 1, 1, 1), (1, 1, 0, 0), (1, 2, 1, 0), (1, 0, 0, 0), (0, 1, 2, 0),
      (2, 0, 0, 2), (0, 2, 2, 0), (2, 0, 1, 1), (0, 2, 1, 0), (1, 0, 1, 0), (1, 0, 2, 0),
      (2, 0, 0, 1)]"

definition partie_complete :: "coup list" where
  "partie_complete =
     [(2, 2, 1, 0), (1, 0, 1, 1), (1, 1, 2, 2), (2, 2, 0, 1), (0, 1, 2, 0), (2, 0, 2, 0),
      (2, 0, 0, 1), (0, 1, 0, 1), (0, 1, 2, 1), (2, 1, 0, 0), (0, 0, 0, 2), (0, 2, 1, 0),
      (1, 0, 0, 1), (0, 1, 0, 0), (0, 0, 1, 0), (1, 0, 2, 0), (2, 0, 2, 1), (2, 1, 0, 1),
      (0, 1, 1, 1), (1, 1, 1, 1), (1, 1, 0, 2), (0, 2, 0, 0), (0, 0, 1, 2), (1, 2, 1, 1),
      (1, 1, 1, 2), (1, 2, 2, 2), (2, 2, 1, 1), (0, 2, 2, 0), (2, 0, 1, 1), (2, 1, 2, 0),
      (2, 2, 1, 2), (1, 2, 0, 2), (1, 0, 0, 2), (2, 1, 1, 0), (1, 0, 0, 0), (0, 0, 2, 2),
      (0, 1, 0, 2), (1, 2, 2, 0), (0, 0, 1, 1)]"

definition plateau_apres :: "coup list \<Rightarrow> morpion_ultime" where
  "plateau_apres partie = fst (mu_jouer_suite mu_reinitialiser None partie)"

text \<open>
  \<open>suite_acceptee g coups\<close>: played one after the other from \<open>g\<close>, every move of the list
  is accepted by \<^verbatim>\<open>jouer_coup\<close>.
\<close>

fun suite_acceptee :: "morpion_ultime \<Rightarrow> coup list \<Rightarrow> bool" where
  "suite_acceptee g [] = True"
| "suite_acceptee g ((sp_l, sp_c, cel_l, cel_c) # reste) =
     (fst (mu_jouer_coup g sp_l sp_c cel_l cel_c) \<and>
      suite_acceptee (snd (mu_jouer_coup g sp_l sp_c cel_l cel_c)) reste)"

section \<open>Objects in a store\<close>

text \<open>
  The definitions above treat a board as a value. Whether \<^verbatim>\<open>dupliquer\<close> shares mutable
  state with its source cannot be asked of values, so the objects are also modelled in an
  explicit store. Three kinds of Python objects are mutated in place by game.py: the row
  lists (by \<^verbatim>\<open>self.plateau[ligne][colonne] = joueur\<close>), the \<^verbatim>\<open>PetitPlateau\<close> objects and
  the \<^verbatim>\<open>MorpionUltime\<close> objects (by attribute assignment). Each kind has its own map
  from addresses to contents. The outer lists \<^verbatim>\<open>self.plateau\<close> and \<^verbatim>\<open>self.plateaux\<close> are
  built once and only ever replaced as a whole, never updated in place, so an object holds
  them as lists of addresses. \<open>suivant\<close> is the next unused address.
\<close>

type_synonym adr = nat

record pp_objet =
  o_plateau :: "adr list"
  o_vainqueur :: "chaine option"
  o_jeu_termine :: bool

record mu_objet =
  o_plateaux :: "adr list list"
  o_joueur_courant :: chaine
  o_plateau_actif :: "(int \<times> int) option"
  o_jeu_termine_g :: bool
  o_vainqueur_g :: "chaine option"

record tas =
  lignes :: "adr \<Rightarrow> chaine list"
  petits :: "adr \<Rightarrow> pp_objet"
  morpions :: "adr \<Rightarrow> mu_objet"
  suivant :: adr

text \<open>The value of the object at an address.\<close>

definition lire_pp :: "tas \<Rightarrow> adr \<Rightarrow> petit_plateau" where
  "lire_pp t p =
     \<lparr>plateau = map (lignes t) (o_plateau (petits t p)),
      vainqueur = o_vainqueur (petits t p),
      jeu_termine = o_jeu_termine (petits t p)\<rparr>"

definition lire_mu :: "tas \<Rightarrow> adr \<Rightarrow> morpion_ultime" where
  "lire_mu t g =
     \<lparr>plateaux = map (map (lire_pp t)) (o_plateaux (morpions t g)),
      joueur_courant = o_joueur_courant (morpions t g),
      plateau_actif = o_plateau_actif (morpions t g),
      jeu_termine_g = o_jeu_termine_g (morpions t g),
      vainqueur_g = o_vainqueur_g (morpions t g)\<rparr>"

text \<open>
  A list comprehension whose body allocates: the store is threaded through the
  elements from left to right.
\<close>

fun t_map :: "(tas \<Rightarrow> 'a \<Rightarrow> 'b \<times> tas) \<Rightarrow> tas \<Rightarrow> 'a list \<Rightarrow> 'b list \<times> tas" where
  "t_map f t [] = ([], t)"
| "t_map f t (x # xs) =
     (let (y, t1) = f t x;
          (ys, t2) = t_map f t1 xs
      in (y # ys, t2))"

text \<open>A fresh row list with the given contents (\<^verbatim>\<open>[' ' for _ in range(3)]\<close>, \<^verbatim>\<open>ligne[:]\<close>).\<close>

definition t_alloue_ligne :: "tas \<Rightarrow> chaine list \<Rightarrow> adr \<times> tas" where
  "t_alloue_ligne t contenu =
     (suivant t, t\<lparr>lignes := (lignes t)(suivant t := contenu), suivant := Suc (suivant t)\<rparr>)"

text \<open>\<^verbatim>\<open>PetitPlateau()\<close>: a fresh object, initialised by \<^verbatim>\<open>reinitialiser\<close>.\<close>

definition t_pp_nouveau :: "tas \<Rightarrow> adr \<times> tas" where
  "t_pp_nouveau t =
     (let self = suivant t;
          t0 = t\<lparr>suivant := Suc self\<rparr>;
          (ls, t1) = t_map t_alloue_ligne t0 (map (\<lambda>_. map (\<lambda>_. Vide) range3) range3)
      in (self, t1\<lparr>petits := (petits t1)(self :=
                   \<lparr>o_plateau = ls, o_vainqueur = None, o_jeu_termine = False\<rparr>)\<rparr>))"

text \<open>\<^verbatim>\<open>PetitPlateau.dupliquer\<close> on the object at address \<open>self\<close>.\<close>

definition t_pp_dupliquer :: "tas \<Rightarrow> adr \<Rightarrow> adr \<times> tas" where
  "t_pp_dupliquer t self =
     (let (nouveau, t1) = t_pp_nouveau t;
          (ls, t2) = t_map (\<lambda>t ligne. t_alloue_ligne t (lignes t ligne)) t1
                       (o_plateau (petits t1 self))
      in (nouveau, t2\<lparr>petits := (petits t2)(nouveau :=
                   \<lparr>o_plateau = ls,
                    o_vainqueur = o_vainqueur (petits t2 self),
                    o_jeu_termine = o_jeu_termine (petits t2 self)\<rparr>)\<rparr>))"

text \<open>\<^verbatim>\<open>MorpionUltime()\<close>: a fresh object, initialised by \<^verbatim>\<open>reinitialiser\<close>.\<close>

definition t_mu_nouveau :: "tas \<Rightarrow> adr \<times> tas" where
  "t_mu_nouveau t =
     (let self = suivant t;
          t0 = t\<lparr>suivant := Suc self\<rparr>;
          (ps, t1) = t_map (\<lambda>t _. t_map (\<lambda>t _. t_pp_nouveau t) t range3) t0 range3
      in (self, t1\<lparr>morpions := (morpions t1)(self :=
                   \<lparr>o_plateaux = ps, o_joueur_courant = SymX, o_plateau_actif = None,
                    o_jeu_termine_g = False, o_vainqueur_g = None\<rparr>)\<rparr>))"

text \<open>\<^verbatim>\<open>MorpionUltime.dupliquer\<close> on the object at address \<open>self\<close>.\<close>

definition t_mu_dupliquer :: "tas \<Rightarrow> adr \<Rightarrow> adr \<times> tas" where
  "t_mu_dupliquer t self =
     (let (clone, t1) = t_mu_nouveau t;
          (ps, t2) = t_map (\<lambda>t i. t_map (\<lambda>t j.
                         t_pp_dupliquer t (at2 (o_plateaux (morpions t self)) i j)) t range3)
                       t1 range3
      in (clone, t2\<lparr>morpions := (morpions t2)(clone :=
                   \<lparr>o_plateaux = ps,
                    o_joueur_courant = o_joueur_courant (morpions t2 self),
                    o_plateau_actif = o_plateau_actif (morpions t2 self),
                    o_jeu_termine_g = o_jeu_termine_g (morpions t2 self),
                    o_vainqueur_g = o_vainqueur_g (morpions t2 self)\<rparr>)\<rparr>))"

text \<open>
  \<^verbatim>\<open>PetitPlateau.jouer_coup\<close> on the object at address \<open>self\<close>: the cell assignment
  writes into the row list, \<^verbatim>\<open>verifier_etat\<close> writes the two attributes. The tests are
  those of the value model, applied to the current value of the object.
\<close>

definition t_pp_jouer_coup :: "tas \<Rightarrow> adr \<Rightarrow> int \<Rightarrow> int \<Rightarrow> chaine \<Rightarrow> bool \<times> tas" where
  "t_pp_jouer_coup t self ligne colonne joueur =
     (if pp_coup_valide (lire_pp t self) ligne colonne then
        let la = o_plateau (petits t self) ! nat ligne;
            t1 = t\<lparr>lignes := (lignes t)(la := (lignes t la)[nat colonne := joueur])\<rparr>;
            v = pp_verifier_etat (lire_pp t1 self) joueur
        in (True, t1\<lparr>petits := (petits t1)(self := (petits t1 self)
                        \<lparr>o_vainqueur := vainqueur v, o_jeu_termine := jeu_termine v\<rparr>)\<rparr>)
      else (False, t))"

text \<open>
  \<^verbatim>\<open>MorpionUltime.jouer_coup\<close> on the object at address \<open>self\<close>. The sub-board object is
  mutated through its own address; then the attributes of the board object are
  assigned, in two steps as in the source.
\<close>

definition t_mu_jouer_coup ::
  "tas \<Rightarrow> adr \<Rightarrow> int \<Rightarrow> int \<Rightarrow> int \<Rightarrow> int \<Rightarrow> bool \<times> tas" where
  "t_mu_jouer_coup t self sp_l sp_c cel_l cel_c =
     (if \<not> mu_coup_valide (lire_mu t self) sp_l sp_c cel_l cel_c \<or> o_jeu_termine_g (morpions t self)
      then (False, t)
      else
        let pl = at2 (o_plateaux (morpions t self)) sp_l sp_c;
            (ok, t1) = t_pp_jouer_coup t pl cel_l cel_c (o_joueur_courant (morpions t self))
        in if \<not> ok then (False, t1)
        else
          let g2 = mu_mettre_a_jour_etat_global (lire_mu t1 self);
              t2 = t1\<lparr>morpions := (morpions t1)(self := (morpions t1 self)
                       \<lparr>o_jeu_termine_g := jeu_termine_g g2, o_vainqueur_g := vainqueur_g g2\<rparr>)\<rparr>;
              prochain = (cel_l, cel_c);
              actif = (if o_jeu_termine (petits t2 (at2 (o_plateaux (morpions t2 self))
                                                  (fst prochain) (snd prochain)))
                       then None else Some prochain);
              courant = (if \<not> o_jeu_termine_g (morpions t2 self)
                         then (if o_joueur_courant (morpions t2 self) = SymX then SymO else SymX)
                         else o_joueur_courant (morpions t2 self))
          in (True, t2\<lparr>morpions := (morpions t2)(self := (morpions t2 self)
                        \<lparr>o_plateau_actif := actif, o_joueur_courant := courant\<rparr>)\<rparr>))"

fun t_mu_jouer_suite :: "tas \<Rightarrow> adr \<Rightarrow> coup list \<Rightarrow> tas" where
  "t_mu_jouer_suite t self [] = t"
| "t_mu_jouer_suite t self ((sp_l, sp_c, cel_l, cel_c) # reste) =
     t_mu_jouer_suite (snd (t_mu_jouer_coup t self sp_l sp_c cel_l cel_c)) self reste"

definition tas_vide :: tas where
  "tas_vide =
     \<lparr>lignes = (\<lambda>_. []),
      petits = (\<lambda>_. \<lparr>o_plateau = [], o_vainqueur = None, o_jeu_termine = False\<rparr>),
      morpions = (\<lambda>_. \<lparr>o_plateaux = [], o_joueur_courant = SymX, o_plateau_actif = None,
                        o_jeu_termine_g = False, o_vainqueur_g = None\<rparr>),
      suivant = 0\<rparr>"

text \<open>
  \<open>etend t t'\<close>: \<open>t'\<close> is \<open>t\<close> after some allocations, with everything allocated in \<open>t\<close>
  left as it was. An object is closed in \<open>t\<close> when it and the objects it refers to are
  allocated in \<open>t\<close>; it is fresh from \<open>n\<close> when it and the objects it refers to have
  addresses from \<open>n\<close> on.
\<close>

definition etend :: "tas \<Rightarrow> tas \<Rightarrow> bool" where
  "etend t t' \<longleftrightarrow>
     suivant t \<le> suivant t' \<and>
     (\<forall>a < suivant t. lignes t' a = lignes t a \<and> petits t' a = petits t a \<and>
                         morpions t' a = morpions t a)"

definition pp_clos :: "tas \<Rightarrow> adr \<Rightarrow> bool" where
  "pp_clos t p \<longleftrightarrow> p < suivant t \<and> (\<forall>l \<in> set (o_plateau (petits t p)). l < suivant t)"

definition mu_clos :: "tas \<Rightarrow> adr \<Rightarrow> bool" where
  "mu_clos t g \<longleftrightarrow>
     g < suivant t \<and> (\<forall>ps \<in> set (o_plateaux (morpions t g)). \<forall>p \<in> set ps. pp_clos t p)"

definition pp_frais :: "adr \<Rightarrow> tas \<Rightarrow> adr \<Rightarrow> bool" where
  "pp_frais n t p \<longleftrightarrow> n \<le> p \<and> (\<forall>l \<in> set (o_plateau (petits t p)). n \<le> l)"

definition mu_frais :: "adr \<Rightarrow> tas \<Rightarrow> adr \<Rightarrow> bool" where
  "mu_frais n t g \<longleftrightarrow>
     n \<le> g \<and> (\<forall>ps \<in> set (o_plateaux (morpions t g)). \<forall>p \<in> set ps. pp_frais n t p)"

text \<open>The shape of a board object: a 3 x 3 grid of sub-boards of three rows each.\<close>

definition mu_forme :: "tas \<Rightarrow> adr \<Rightarrow> bool" where
  "mu_forme t g \<longleftrightarrow>
     grille33 (o_plateaux (morpions t g)) \<and>
     (\<forall>ps \<in> set (o_plateaux (morpions t g)). \<forall>p \<in> set ps. length (o_plateau (petits t p)) = 3)"

text \<open>The sub-board objects and the row lists that a board object reaches.\<close>

definition pets :: "tas \<Rightarrow> adr \<Rightarrow> adr set" where
  "pets t g = (\<Union>ps \<in> set (o_plateaux (morpions t g)). set ps)"

definition ligs :: "tas \<Rightarrow> adr \<Rightarrow> adr set" where
  "ligs t g = (\<Union>p \<in> pets t g. set (o_plateau (petits t p)))"

definition separes :: "tas \<Rightarrow> adr \<Rightarrow> adr \<Rightarrow> bool" where
  "separes t g c \<longleftrightarrow> g \<noteq> c \<and> pets t g \<inter> pets t c = {} \<and> ligs t g \<inter> ligs t c = {}"

text \<open>
  Rows allocated from \<open>n\<close> on: each result is a fresh address holding the content that
  \<open>contenu\<close> assigns to the element.
\<close>

definition ligne_ok :: "adr \<Rightarrow> ('a \<Rightarrow> chaine list) \<Rightarrow> tas \<Rightarrow> 'a \<Rightarrow> adr \<Rightarrow> bool" where
  "ligne_ok n contenu t x l \<longleftrightarrow> n \<le> l \<and> l < suivant t \<and> lignes t l = contenu x"

text \<open>
  A sub-board object \<open>y\<close> built from \<open>n\<close> on, closed, whose value is \<open>v\<close>.
\<close>

definition pp_ok :: "adr \<Rightarrow> petit_plateau \<Rightarrow> tas \<Rightarrow> adr \<Rightarrow> bool" where
  "pp_ok n v t y \<longleftrightarrow>
     pp_clos t y \<and> pp_frais n t y \<and> lire_pp t y = v \<and>
     length (o_plateau (petits t y)) = length (plateau v)"

text \<open>
  \<open>cadre g t t1\<close>: going from \<open>t\<close> to \<open>t1\<close> nothing was allocated, no object changed the
  objects it refers to, and the only contents that may differ are those of the board
  object \<open>g\<close>, of its sub-board objects and of their row lists.
\<close>

definition cadre :: "adr \<Rightarrow> tas \<Rightarrow> tas \<Rightarrow> bool" where
  "cadre g t t1 \<longleftrightarrow>
     (\<forall>x. o_plateaux (morpions t1 x) = o_plateaux (morpions t x)) \<and>
     (\<forall>x. o_plateau (petits t1 x) = o_plateau (petits t x)) \<and>
     (\<forall>x. x \<noteq> g \<longrightarrow> morpions t1 x = morpions t x) \<and>
     (\<forall>x. x \<notin> pets t g \<longrightarrow> petits t1 x = petits t x) \<and>
     (\<forall>x. x \<notin> ligs t g \<longrightarrow> lignes t1 x = lignes t x)"

text \<open>
  A concrete store: \<^verbatim>\<open>MorpionUltime()\<close> run in the empty store, then \<^verbatim>\<open>dupliquer()\<close>
  called on the object it returned.
\<close>

definition tas_depart :: tas where
  "tas_depart = snd (t_mu_nouveau tas_vide)"

definition jeu_depart :: adr where
  "jeu_depart = fst (t_mu_nouveau tas_vide)"

definition tas_copie :: tas where
  "tas_copie = snd (t_mu_dupliquer tas_depart jeu_depart)"

definition jeu_copie :: adr where
  "jeu_copie = fst (t_mu_dupliquer tas_depart jeu_depart)"

section \<open>Rejected moves leave the board unchanged\<close>

lemma pp_jouer_coup_echec:
  "fst (pp_jouer_coup sp l c j) = False \<Longrightarrow> snd (pp_jouer_coup sp l c j) = sp"
  by (simp add: pp_jouer_coup_def split: if_splits)

lemma set2_meme: "set2 g l c (at2 g l c) = g"
  by (simp add: set2_def at2_def)

lemma mu_jouer_coup_echec_id:
  "fst (mu_jouer_coup g sp_l sp_c cel_l cel_c) = False \<Longrightarrow>
   snd (mu_jouer_coup g sp_l sp_c cel_l cel_c) = g"
proof (cases "\<not> mu_coup_valide g sp_l sp_c cel_l cel_c \<or> jeu_termine_g g")
  case True
  then show ?thesis by (simp add: mu_jouer_coup_def)
next
  case False
  assume echec: "fst (mu_jouer_coup g sp_l sp_c cel_l cel_c) = False"
  obtain ok pl where r: "pp_jouer_coup (at2 (plateaux g) sp_l sp_c) cel_l cel_c (joueur_courant g) = (ok, pl)"
    by (cases "pp_jouer_coup (at2 (plateaux g) sp_l sp_c) cel_l cel_c (joueur_courant g)")
  from False echec r have "\<not> ok"
    by (auto simp: mu_jouer_coup_def Let_def split: if_splits)
  with r pp_jouer_coup_echec[of "at2 (plateaux g) sp_l sp_c" cel_l cel_c "joueur_courant g"]
  have "pl = at2 (plateaux g) sp_l sp_c" by simp
  with False r \<open>\<not> ok\<close> show ?thesis
    by (simp add: mu_jouer_coup_def Let_def set2_meme)
qed

text \<open>
  Claim C4. Whenever \<^verbatim>\<open>MorpionUltime.jouer_coup\<close> returns \<^verbatim>\<open>False\<close> (indices out of
  range, sub-board or cell unavailable, active sub-board constraint violated, or game
  already over), the board after the call equals the board before it in every field.
\<close>

theorem jouer_coup_echec_sans_mutation:
  "fst (mu_jouer_coup g sp_l sp_c cel_l cel_c) = False \<Longrightarrow>
   snd (mu_jouer_coup g sp_l sp_c cel_l cel_c) = g"
  by (rule mu_jouer_coup_echec_id)

theorem jouer_coup_echec_sans_mutation_witness:
  "fst (mu_jouer_coup mu_reinitialiser 3 0 0 0) = False \<and>
   snd (mu_jouer_coup mu_reinitialiser 3 0 0 0) = mu_reinitialiser"
proof -
  have h: "fst (mu_jouer_coup mu_reinitialiser 3 0 0 0) = False"
    by (simp add: mu_jouer_coup_def mu_coup_valide_def)
  from h jouer_coup_echec_sans_mutation[OF h] show ?thesis by simp
qed


section \<open>Finished sub-boards are frozen\<close>

lemma coherent_reinit: "coherent pp_reinitialiser"
  by (simp add: coherent_def pp_reinitialiser_def)

lemma coherent_verifier:
  "\<not> jeu_termine sp \<Longrightarrow> vainqueur sp = None \<Longrightarrow> coherent (pp_verifier_etat sp j)"
  by (simp add: coherent_def pp_verifier_etat_def Let_def)

lemma coherent_jouer: "coherent sp \<Longrightarrow> coherent (snd (pp_jouer_coup sp l c j))"
proof (cases "pp_coup_valide sp l c")
  case True
  assume c: "coherent sp"
  from True have nt: "\<not> jeu_termine sp" by (simp add: pp_coup_valide_def)
  with c have "vainqueur sp = None" by (simp add: coherent_def)
  with nt have "coherent (pp_verifier_etat (sp\<lparr>plateau := set2 (plateau sp) l c j\<rparr>) j)"
    by (intro coherent_verifier) simp_all
  with True show ?thesis by (simp add: pp_jouer_coup_def)
next
  case False
  assume "coherent sp"
  with False show ?thesis by (simp add: pp_jouer_coup_def)
qed

lemma snd_pp_jouer_suite_Cons:
  "snd (pp_jouer_suite sp ((l, c, j) # cs)) = snd (pp_jouer_suite (snd (pp_jouer_coup sp l c j)) cs)"
  by (simp split: prod.splits)

lemma coherent_suite: "coherent sp \<Longrightarrow> coherent (snd (pp_jouer_suite sp cs))"
proof (induction cs arbitrary: sp)
  case Nil
  then show ?case by simp
next
  case (Cons x cs)
  obtain l c j where x: "x = (l, c, j)" by (cases x)
  from Cons.prems have "coherent (snd (pp_jouer_coup sp l c j))" by (rule coherent_jouer)
  from Cons.IH[OF this] show ?case
    by (simp only: x snd_pp_jouer_suite_Cons)
qed

lemma pp_termine_refuse: "jeu_termine sp \<Longrightarrow> pp_jouer_coup sp l c j = (False, sp)"
  by (simp add: pp_jouer_coup_def pp_coup_valide_def)

lemma pp_termine_suite:
  "jeu_termine sp \<Longrightarrow> pp_jouer_suite sp cs = (replicate (length cs) False, sp)"
proof (induction cs)
  case Nil
  then show ?case by simp
next
  case (Cons x cs)
  obtain l c j where x: "x = (l, c, j)" by (cases x)
  from Cons show ?case by (simp add: x pp_termine_refuse)
qed

text \<open>
  Claim C7. Take any sub-board produced from a fresh one by a run of
  \<^verbatim>\<open>PetitPlateau.jouer_coup\<close> calls. If its \<^verbatim>\<open>vainqueur\<close> is \<^verbatim>\<open>'X'\<close>, \<^verbatim>\<open>'O'\<close> or
  \<^verbatim>\<open>"DRAW"\<close>, then every further call returns \<^verbatim>\<open>False\<close> and leaves the sub-board as it
  is, and so does every further run of calls: a finished sub-board has no outgoing
  transition.
\<close>

theorem sous_plateau_termine_fige:
  "vainqueur (snd (pp_jouer_suite pp_reinitialiser avant)) \<noteq> None \<longrightarrow>
     pp_jouer_coup (snd (pp_jouer_suite pp_reinitialiser avant)) l c joueur
       = (False, snd (pp_jouer_suite pp_reinitialiser avant)) \<and>
     pp_jouer_suite (snd (pp_jouer_suite pp_reinitialiser avant)) apres
       = (replicate (length apres) False, snd (pp_jouer_suite pp_reinitialiser avant))"
proof
  let ?sp = "snd (pp_jouer_suite pp_reinitialiser avant)"
  assume v: "vainqueur ?sp \<noteq> None"
  have "coherent ?sp" by (rule coherent_suite[OF coherent_reinit])
  with v have t: "jeu_termine ?sp" by (simp add: coherent_def)
  from pp_termine_refuse[OF t] pp_termine_suite[OF t]
  show "pp_jouer_coup ?sp l c joueur = (False, ?sp) \<and>
        pp_jouer_suite ?sp apres = (replicate (length apres) False, ?sp)" by simp
qed

lemma avant_ex:
  "snd (pp_jouer_suite pp_reinitialiser [(0,0,SymX),(0,1,SymX),(0,2,SymX)])
    = \<lparr>plateau = [[SymX,SymX,SymX],[Vide,Vide,Vide],[Vide,Vide,Vide]], vainqueur = Some SymX, jeu_termine = True\<rparr>"
  by (simp add: pp_jouer_coup_def pp_coup_valide_def pp_reinitialiser_def pp_verifier_etat_def
      at2_def set2_def pp_est_nul_def Let_def)

theorem sous_plateau_termine_fige_witness:
  "vainqueur (snd (pp_jouer_suite pp_reinitialiser [(0,0,SymX),(0,1,SymX),(0,2,SymX)])) \<noteq> None \<and>
   pp_jouer_coup (snd (pp_jouer_suite pp_reinitialiser [(0,0,SymX),(0,1,SymX),(0,2,SymX)])) 1 1 SymO
     = (False, snd (pp_jouer_suite pp_reinitialiser [(0,0,SymX),(0,1,SymX),(0,2,SymX)])) \<and>
   pp_jouer_suite (snd (pp_jouer_suite pp_reinitialiser [(0,0,SymX),(0,1,SymX),(0,2,SymX)])) [(1,1,SymO),(2,2,SymX)]
     = ([False, False], snd (pp_jouer_suite pp_reinitialiser [(0,0,SymX),(0,1,SymX),(0,2,SymX)]))"
proof -
  let ?av = "[(0,0,SymX),(0,1,SymX),(0,2,SymX)]"
  have h: "vainqueur (snd (pp_jouer_suite pp_reinitialiser ?av)) \<noteq> None"
    by (simp only: avant_ex) simp
  from h sous_plateau_termine_fige[of ?av 1 1 SymO "[(1,1,SymO),(2,2,SymX)]"]
  show ?thesis by (simp del: pp_jouer_suite.simps add: numeral_2_eq_2)
qed

section \<open>Propagation of the active sub-board\<close>

lemma maj_plateaux [simp]: "plateaux (mu_mettre_a_jour_etat_global g) = plateaux g"
  by (simp add: mu_mettre_a_jour_etat_global_def Let_def split: option.splits)

lemma dans_range3: "0 \<le> (i::int) \<Longrightarrow> i < 3 \<Longrightarrow> i = 0 \<or> i = 1 \<or> i = 2"
  by arith

lemma set_coups_du_plateau:
  "set (coups_du_plateau pl l c) = {(l, c, i, j) | i j. pp_coup_valide pl i j}"
proof -
  have r: "pp_coup_valide pl i j \<Longrightarrow> (i = 0 \<or> i = 1 \<or> i = 2) \<and> (j = 0 \<or> j = 1 \<or> j = 2)" for i j
    unfolding pp_coup_valide_def by (elim conjE) (simp add: dans_range3)
  show ?thesis
  proof (intro set_eqI iffI)
    fix m assume "m \<in> set (coups_du_plateau pl l c)"
    then show "m \<in> {(l, c, i, j) | i j. pp_coup_valide pl i j}"
      unfolding coups_du_plateau_def by (simp split: if_splits) blast
  next
    fix m assume "m \<in> {(l, c, i, j) | i j. pp_coup_valide pl i j}"
    then obtain i j where m: "m = (l, c, i, j)" and v: "pp_coup_valide pl i j" by blast
    from r[OF v] v show "m \<in> set (coups_du_plateau pl l c)"
      unfolding coups_du_plateau_def m by auto
  qed
qed

lemma set_coups_contraint:
  "plateau_actif g = Some (r, c) \<Longrightarrow>
   set (mu_obtenir_coups_valides g) = {(r, c, i, j) | i j. pp_coup_valide (at2 (plateaux g) r c) i j}"
  by (simp add: mu_obtenir_coups_valides_def set_coups_du_plateau)

lemma set_coups_libre:
  assumes pa: "plateau_actif g = None"
  shows "set (mu_obtenir_coups_valides g) =
     {(a, b, i, j) | a b i j. a \<in> {0, 1, 2} \<and> b \<in> {0, 1, 2} \<and>
        \<not> jeu_termine (at2 (plateaux g) a b) \<and> pp_coup_valide (at2 (plateaux g) a b) i j}"
proof -
  define f where "f = (\<lambda>a b. let pl = at2 (plateaux g) a b in
            if jeu_termine pl then [] else coups_du_plateau pl a b)"
  have f: "set (f a b) = {(a, b, i, j) | i j.
      \<not> jeu_termine (at2 (plateaux g) a b) \<and> pp_coup_valide (at2 (plateaux g) a b) i j}" for a b
    by (simp add: f_def Let_def set_coups_du_plateau)
  have "mu_obtenir_coups_valides g = concat (map (\<lambda>a. concat (map (f a) range3)) range3)"
    by (simp only: mu_obtenir_coups_valides_def pa option.case f_def)
  then have "set (mu_obtenir_coups_valides g) = (\<Union>a\<in>{0, 1, 2}. \<Union>b\<in>{0, 1, 2}. set (f a b))"
    by (simp add: Un_assoc)
  also have "\<dots> = {(a, b, i, j) | a b i j. a \<in> {0, 1, 2} \<and> b \<in> {0, 1, 2} \<and>
        \<not> jeu_termine (at2 (plateaux g) a b) \<and> pp_coup_valide (at2 (plateaux g) a b) i j}"
    unfolding f by blast
  finally show ?thesis .
qed

lemma mu_jouer_coup_succes_actif:
  assumes "mu_jouer_coup g a b r c = (True, g1)"
  shows "plateau_actif g1 = (if jeu_termine (at2 (plateaux g1) r c) then None else Some (r, c))"
proof -
  obtain ok pl where p: "pp_jouer_coup (at2 (plateaux g) a b) r c (joueur_courant g) = (ok, pl)"
    by (cases "pp_jouer_coup (at2 (plateaux g) a b) r c (joueur_courant g)")
  from assms have v: "\<not> (\<not> mu_coup_valide g a b r c \<or> jeu_termine_g g)"
    by (auto simp: mu_jouer_coup_def split: if_splits)
  from assms v p have ok by (auto simp: mu_jouer_coup_def Let_def split: if_splits)
  from assms v p \<open>ok\<close> show ?thesis
    by (auto simp: mu_jouer_coup_def Let_def split: if_splits)
qed

lemma mu_jouer_suite_Cons:
  "mu_jouer_suite g d ((a, b, r, c) # cs) =
     (if fst (mu_jouer_coup g a b r c)
      then mu_jouer_suite (snd (mu_jouer_coup g a b r c)) (Some (a, b, r, c)) cs
      else mu_jouer_suite (snd (mu_jouer_coup g a b r c)) d cs)"
  by (simp split: prod.splits)

lemma contrainte_suite:
  "contrainte_ok g0 g d \<Longrightarrow>
   contrainte_ok g0 (fst (mu_jouer_suite g d cs)) (snd (mu_jouer_suite g d cs))"
proof (induction cs arbitrary: g d)
  case Nil
  then show ?case by simp
next
  case (Cons x cs)
  obtain a b r c where x: "x = (a, b, r, c)" by (cases x)
  show ?case
  proof (cases "fst (mu_jouer_coup g a b r c)")
    case True
    then have "mu_jouer_coup g a b r c = (True, snd (mu_jouer_coup g a b r c))"
      by (cases "mu_jouer_coup g a b r c") simp
    then have "contrainte_ok g0 (snd (mu_jouer_coup g a b r c)) (Some (a, b, r, c))"
      by (simp add: contrainte_ok_def mu_jouer_coup_succes_actif)
    from Cons.IH[OF this] True show ?thesis by (simp only: x mu_jouer_suite_Cons if_True)
  next
    case False
    with mu_jouer_coup_echec_id[of g a b r c] have "snd (mu_jouer_coup g a b r c) = g" by simp
    with Cons.prems have "contrainte_ok g0 (snd (mu_jouer_coup g a b r c)) d" by simp
    from Cons.IH[OF this] False show ?thesis by (simp only: x mu_jouer_suite_Cons if_False)
  qed
qed

text \<open>
  Claim C6. Start from any board \<open>g0\<close> and make any run of \<^verbatim>\<open>jouer_coup\<close> calls. If no
  call was accepted the board is still \<open>g0\<close>. Otherwise let \<open>(r, c)\<close> be the cell
  coordinates of the last accepted move: if sub-board \<open>(r, c)\<close> is not finished,
  \<^verbatim>\<open>plateau_actif\<close> is \<open>(r, c)\<close> and \<^verbatim>\<open>obtenir_coups_valides\<close> lists exactly the playable
  cells of that sub-board; if it is finished, \<^verbatim>\<open>plateau_actif\<close> is \<^verbatim>\<open>None\<close> and
  \<^verbatim>\<open>obtenir_coups_valides\<close> lists exactly the playable cells of all unfinished
  sub-boards. With \<open>g0\<close> the initial board, \<^verbatim>\<open>plateau_actif\<close> is therefore \<^verbatim>\<open>None\<close> only
  at game start or when the sub-board named by the previous move is finished.
\<close>

theorem contrainte_apres_coup:
  "(snd (mu_jouer_suite g0 None cs) = None \<longrightarrow> fst (mu_jouer_suite g0 None cs) = g0) \<and>
   (\<forall>a b r c. snd (mu_jouer_suite g0 None cs) = Some (a, b, r, c) \<longrightarrow>
      (let g = fst (mu_jouer_suite g0 None cs) in
       (\<not> jeu_termine (at2 (plateaux g) r c) \<longrightarrow>
          plateau_actif g = Some (r, c) \<and>
          set (mu_obtenir_coups_valides g) =
            {(r, c, i, j) | i j. pp_coup_valide (at2 (plateaux g) r c) i j}) \<and>
       (jeu_termine (at2 (plateaux g) r c) \<longrightarrow>
          plateau_actif g = None \<and>
          set (mu_obtenir_coups_valides g) =
            {(sl, sc, i, j) | sl sc i j. sl \<in> {0, 1, 2} \<and> sc \<in> {0, 1, 2} \<and>
               \<not> jeu_termine (at2 (plateaux g) sl sc) \<and>
               pp_coup_valide (at2 (plateaux g) sl sc) i j})))"
proof -
  let ?g = "fst (mu_jouer_suite g0 None cs)"
  let ?d = "snd (mu_jouer_suite g0 None cs)"
  have "contrainte_ok g0 g0 None" by (simp add: contrainte_ok_def)
  from contrainte_suite[OF this, of cs] have k: "contrainte_ok g0 ?g ?d" .
  have un: "?d = None \<longrightarrow> ?g = g0"
  proof
    assume "?d = None"
    with k show "?g = g0" by (simp add: contrainte_ok_def)
  qed
  have deux: "plateau_actif ?g = Some (r, c) \<and>
          set (mu_obtenir_coups_valides ?g) =
            {(r, c, i, j) | i j. pp_coup_valide (at2 (plateaux ?g) r c) i j}"
    if "?d = Some (a, b, r, c)" "\<not> jeu_termine (at2 (plateaux ?g) r c)" for a b r c
  proof -
    from k that have "plateau_actif ?g = Some (r, c)" by (simp add: contrainte_ok_def)
    with set_coups_contraint[OF this] show ?thesis by simp
  qed
  have trois: "plateau_actif ?g = None \<and>
          set (mu_obtenir_coups_valides ?g) =
            {(sl, sc, i, j) | sl sc i j. sl \<in> {0, 1, 2} \<and> sc \<in> {0, 1, 2} \<and>
               \<not> jeu_termine (at2 (plateaux ?g) sl sc) \<and>
               pp_coup_valide (at2 (plateaux ?g) sl sc) i j}"
    if "?d = Some (a, b, r, c)" "jeu_termine (at2 (plateaux ?g) r c)" for a b r c
  proof -
    from k that have "plateau_actif ?g = None" by (simp add: contrainte_ok_def)
    with set_coups_libre[OF this] show ?thesis by simp
  qed
  show ?thesis
    unfolding Let_def
  proof (intro conjI allI impI)
    assume "?d = None"
    with un show "?g = g0" by simp
  next
    fix a b r c
    assume h: "?d = Some (a, b, r, c)" "\<not> jeu_termine (at2 (plateaux ?g) r c)"
    from deux[OF h] show "plateau_actif ?g = Some (r, c)" by (rule conjunct1)
    from deux[OF h] show "set (mu_obtenir_coups_valides ?g) =
            {(r, c, i, j) | i j. pp_coup_valide (at2 (plateaux ?g) r c) i j}" by (rule conjunct2)
  next
    fix a b r c
    assume h: "?d = Some (a, b, r, c)" "jeu_termine (at2 (plateaux ?g) r c)"
    from trois[OF h] show "plateau_actif ?g = None" by (rule conjunct1)
    from trois[OF h] show "set (mu_obtenir_coups_valides ?g) =
            {(sl, sc, i, j) | sl sc i j. sl \<in> {0, 1, 2} \<and> sc \<in> {0, 1, 2} \<and>
               \<not> jeu_termine (at2 (plateaux ?g) sl sc) \<and>
               pp_coup_valide (at2 (plateaux ?g) sl sc) i j}" by (rule conjunct2)
  qed
qed

theorem contrainte_apres_coup_witness:
  "snd (mu_jouer_suite mu_reinitialiser None [(0, 0, 1, 1)]) = Some (0, 0, 1, 1) \<and>
   \<not> jeu_termine (at2 (plateaux (fst (mu_jouer_suite mu_reinitialiser None [(0, 0, 1, 1)]))) 1 1) \<and>
   plateau_actif (fst (mu_jouer_suite mu_reinitialiser None [(0, 0, 1, 1)])) = Some (1, 1) \<and>
   snd (mu_jouer_suite mu_reinitialiser None []) = None \<and>
   fst (mu_jouer_suite mu_reinitialiser None []) = mu_reinitialiser"
proof -
  have d: "snd (mu_jouer_suite mu_reinitialiser None [(0, 0, 1, 1)]) = Some (0, 0, 1, 1)"
    by code_simp
  have t: "\<not> jeu_termine (at2 (plateaux (fst (mu_jouer_suite mu_reinitialiser None [(0, 0, 1, 1)]))) 1 1)"
    by code_simp
  have n: "snd (mu_jouer_suite mu_reinitialiser None []) = None" by simp
  note th = contrainte_apres_coup[of mu_reinitialiser "[(0, 0, 1, 1)]", unfolded Let_def]
  note th1 = th[THEN conjunct2, rule_format, OF d, THEN conjunct1, rule_format, OF t, THEN conjunct1]
  note th0 = contrainte_apres_coup[of mu_reinitialiser "[]", THEN conjunct1, rule_format, OF n]
  from d t th1 n th0 show ?thesis by (intro conjI)
qed

section \<open>Open triples and the anticipated draw\<close>

lemma at2_global_p:
  assumes "0 \<le> r" "r < 3" "0 \<le> c" "c < 3"
  shows "at2 (global_p g) r c =
     (case vainqueur (at2 (plateaux g) r c) of None \<Rightarrow> Vide | Some v \<Rightarrow> v)"
proof -
  from assms have "r = 0 \<or> r = 1 \<or> r = 2" "c = 0 \<or> c = 1 \<or> c = 2" by arith+
  then show ?thesis
    by (elim disjE) (simp_all add: global_p_def at2_def)
qed

lemma ouvert_iff:
  "s = SymX \<or> s = SymO \<Longrightarrow>
   ((case w of None \<Rightarrow> Vide | Some v \<Rightarrow> v) \<in> set [s, Vide]) \<longleftrightarrow>
   (w \<noteq> Some (adversaire_de s) \<and> w \<noteq> Some DRAW)"
proof (cases w)
  case None
  then show ?thesis by simp
next
  case (Some v)
  assume "s = SymX \<or> s = SymO"
  with Some show ?thesis by (cases v) (auto simp: adversaire_de_def)
qed

lemma combinaisons_dans_grille:
  "list_all (list_all (\<lambda>(r, c). 0 \<le> r \<and> r < 3 \<and> 0 \<le> c \<and> c < 3)) combinaisons"
  by code_simp

lemma combo_ouverte_iff:
  assumes s: "s = SymX \<or> s = SymO" and combo: "combo \<in> set combinaisons"
  shows "combo_ouverte (global_p g) s combo \<longleftrightarrow>
     (\<forall>(r, c) \<in> set combo. vainqueur (at2 (plateaux g) r c) \<noteq> Some (adversaire_de s) \<and>
                          vainqueur (at2 (plateaux g) r c) \<noteq> Some DRAW)"
proof -
  from combinaisons_dans_grille combo
  have dans: "\<forall>(r, c) \<in> set combo. 0 \<le> r \<and> r < 3 \<and> 0 \<le> c \<and> c < 3"
    by (simp add: list_all_iff)
  have "at2 (global_p g) r c \<in> set [s, Vide] \<longleftrightarrow>
        (vainqueur (at2 (plateaux g) r c) \<noteq> Some (adversaire_de s) \<and>
         vainqueur (at2 (plateaux g) r c) \<noteq> Some DRAW)" if "(r, c) \<in> set combo" for r c
  proof -
    from dans that have "0 \<le> r" "r < 3" "0 \<le> c" "c < 3" by fastforce+
    then show ?thesis by (simp only: at2_global_p ouvert_iff[OF s])
  qed
  then show ?thesis
    unfolding combo_ouverte_def list_all_iff by fastforce
qed

lemma peut_encore_gagner_iff:
  assumes s: "s = SymX \<or> s = SymO"
  shows "\<not> peut_encore_gagner (global_p g) s \<longleftrightarrow>
     (\<forall>combo \<in> set combinaisons. \<exists>(r, c) \<in> set combo.
        vainqueur (at2 (plateaux g) r c) = Some (adversaire_de s) \<or>
        vainqueur (at2 (plateaux g) r c) = Some DRAW)"
proof -
  have "\<not> peut_encore_gagner (global_p g) s \<longleftrightarrow>
        (\<forall>combo \<in> set combinaisons. \<not> combo_ouverte (global_p g) s combo)"
    by (simp add: peut_encore_gagner_def list_ex_iff)
  also have "\<dots> \<longleftrightarrow> (\<forall>combo \<in> set combinaisons. \<exists>(r, c) \<in> set combo.
        vainqueur (at2 (plateaux g) r c) = Some (adversaire_de s) \<or>
        vainqueur (at2 (plateaux g) r c) = Some DRAW)"
  proof (intro ball_cong refl)
    fix combo assume "combo \<in> set combinaisons"
    from combo_ouverte_iff[OF s this, of g]
    show "(\<not> combo_ouverte (global_p g) s combo) \<longleftrightarrow> (\<exists>(r, c) \<in> set combo.
        vainqueur (at2 (plateaux g) r c) = Some (adversaire_de s) \<or>
        vainqueur (at2 (plateaux g) r c) = Some DRAW)"
      by (simp add: split_def)
  qed
  finally show ?thesis .
qed

lemma maj_sans_gagnant:
  assumes "gagnant_global (global_p g) = None" "\<not> tous_termines g"
  shows "mu_mettre_a_jour_etat_global g =
    (if \<not> peut_encore_gagner (global_p g) SymX \<and> \<not> peut_encore_gagner (global_p g) SymO
     then g\<lparr>jeu_termine_g := True, vainqueur_g := None\<rparr> else g)"
  using assms by (simp add: mu_mettre_a_jour_etat_global_def Let_def)

text \<open>
  Claim C1, as the code has it. For a symbol \<open>s\<close> and each of the 8 triples,
  \<^verbatim>\<open>peut_encore_gagner\<close> counts the triple as open for \<open>s\<close> exactly when no sub-board of
  the triple is won by the opposite symbol and none is drawn: a drawn sub-board closes
  the triple for both symbols. When step 2 found no winner and not all sub-boards are
  finished, \<^verbatim>\<open>mettre_a_jour_etat_global\<close> ends the game exactly when, for both symbols,
  every triple holds a sub-board won by the opposite symbol or drawn; the game is then
  a draw (\<^verbatim>\<open>vainqueur\<close> is \<^verbatim>\<open>None\<close>).
\<close>

theorem triple_ouvert_et_nulle_anticipee:
  "(\<forall>s combo. (s = SymX \<or> s = SymO) \<longrightarrow> combo \<in> set combinaisons \<longrightarrow>
      (combo_ouverte (global_p g) s combo \<longleftrightarrow>
         (\<forall>(r, c) \<in> set combo.
            vainqueur (at2 (plateaux g) r c) \<noteq> Some (adversaire_de s) \<and>
            vainqueur (at2 (plateaux g) r c) \<noteq> Some DRAW))) \<and>
   (\<not> jeu_termine_g g \<longrightarrow> gagnant_global (global_p g) = None \<longrightarrow> \<not> tous_termines g \<longrightarrow>
      (jeu_termine_g (mu_mettre_a_jour_etat_global g) \<longleftrightarrow>
         (\<forall>s \<in> {SymX, SymO}. \<forall>combo \<in> set combinaisons. \<exists>(r, c) \<in> set combo.
            vainqueur (at2 (plateaux g) r c) = Some (adversaire_de s) \<or>
            vainqueur (at2 (plateaux g) r c) = Some DRAW)) \<and>
      (jeu_termine_g (mu_mettre_a_jour_etat_global g) \<longrightarrow>
         vainqueur_g (mu_mettre_a_jour_etat_global g) = None))"
proof (intro conjI allI impI)
  fix s combo
  assume "s = SymX \<or> s = SymO" "combo \<in> set combinaisons"
  then show "combo_ouverte (global_p g) s combo \<longleftrightarrow>
         (\<forall>(r, c) \<in> set combo.
            vainqueur (at2 (plateaux g) r c) \<noteq> Some (adversaire_de s) \<and>
            vainqueur (at2 (plateaux g) r c) \<noteq> Some DRAW)"
    by (rule combo_ouverte_iff)
next
  assume h: "\<not> jeu_termine_g g" "gagnant_global (global_p g) = None" "\<not> tous_termines g"
  have x: "\<not> peut_encore_gagner (global_p g) SymX \<longleftrightarrow>
     (\<forall>combo \<in> set combinaisons. \<exists>(r, c) \<in> set combo.
        vainqueur (at2 (plateaux g) r c) = Some (adversaire_de SymX) \<or>
        vainqueur (at2 (plateaux g) r c) = Some DRAW)"
    by (rule peut_encore_gagner_iff) simp
  have o: "\<not> peut_encore_gagner (global_p g) SymO \<longleftrightarrow>
     (\<forall>combo \<in> set combinaisons. \<exists>(r, c) \<in> set combo.
        vainqueur (at2 (plateaux g) r c) = Some (adversaire_de SymO) \<or>
        vainqueur (at2 (plateaux g) r c) = Some DRAW)"
    by (rule peut_encore_gagner_iff) simp
  have "jeu_termine_g (mu_mettre_a_jour_etat_global g) \<longleftrightarrow>
        (\<not> peut_encore_gagner (global_p g) SymX \<and> \<not> peut_encore_gagner (global_p g) SymO)"
    using h by (simp add: maj_sans_gagnant)
  then show "jeu_termine_g (mu_mettre_a_jour_etat_global g) \<longleftrightarrow>
         (\<forall>s \<in> {SymX, SymO}. \<forall>combo \<in> set combinaisons. \<exists>(r, c) \<in> set combo.
            vainqueur (at2 (plateaux g) r c) = Some (adversaire_de s) \<or>
            vainqueur (at2 (plateaux g) r c) = Some DRAW)"
    by (simp only: x o ball_simps(7) ball_empty simp_thms)
next
  assume h: "\<not> jeu_termine_g g" "gagnant_global (global_p g) = None" "\<not> tous_termines g"
    and t: "jeu_termine_g (mu_mettre_a_jour_etat_global g)"
  from h t show "vainqueur_g (mu_mettre_a_jour_etat_global g) = None"
    by (simp add: maj_sans_gagnant split: if_splits)
qed

text \<open>
  Claim C1 as stated fails. In the game \<open>partie_nulle_anticipee\<close> all 43 moves are accepted
  and the game is still running after 42 of them. With move 43 player X wins sub-board
  (2, 0). The sub-boards of the anti-diagonal are then drawn (0, 2), won by X (1, 1) and
  won by X (2, 0): none is won by O, so by the stated criterion that triple is still open
  for X. The code counts it as closed, finds no open triple for X nor for O, and ends the
  game as a draw while sub-boards (1, 2) and (2, 2) are unfinished.
\<close>

theorem drawn_sub_board_blocks_triple_counterexample:
  "suite_acceptee mu_reinitialiser partie_nulle_anticipee \<and>
   \<not> jeu_termine_g (plateau_apres (take 42 partie_nulle_anticipee)) \<and>
   joueur_courant (plateau_apres (take 42 partie_nulle_anticipee)) = SymX \<and>
   map (map vainqueur) (plateaux (plateau_apres partie_nulle_anticipee)) =
     [[Some SymO, Some SymO, Some DRAW], [Some SymO, Some SymX, None], [Some SymX, Some SymO, None]] \<and>
   jeu_termine_g (plateau_apres partie_nulle_anticipee) \<and>
   vainqueur_g (plateau_apres partie_nulle_anticipee) = None \<and>
   \<not> tous_termines (plateau_apres partie_nulle_anticipee) \<and>
   [(0, 2), (1, 1), (2, 0)] \<in> set combinaisons \<and>
   spec_combo_ouverte (plateau_apres partie_nulle_anticipee) SymX [(0, 2), (1, 1), (2, 0)] \<and>
   \<not> combo_ouverte (global_p (plateau_apres partie_nulle_anticipee)) SymX [(0, 2), (1, 1), (2, 0)] \<and>
   \<not> peut_encore_gagner (global_p (plateau_apres partie_nulle_anticipee)) SymX \<and>
   \<not> peut_encore_gagner (global_p (plateau_apres partie_nulle_anticipee)) SymO"
  by code_simp

theorem triple_ouvert_et_nulle_anticipee_witness:
  "(SymX = SymX \<or> SymX = SymO) \<and>
   [(0,0),(0,1),(0,2)] \<in> set combinaisons \<and>
   \<not> combo_ouverte (global_p exemple_trois_nuls) SymX [(0,0),(0,1),(0,2)] \<and>
   \<not> jeu_termine_g exemple_trois_nuls \<and>
   gagnant_global (global_p exemple_trois_nuls) = None \<and>
   \<not> tous_termines exemple_trois_nuls \<and>
   jeu_termine_g (mu_mettre_a_jour_etat_global exemple_trois_nuls) \<and>
   vainqueur_g (mu_mettre_a_jour_etat_global exemple_trois_nuls) = None"
proof -
  note th = triple_ouvert_et_nulle_anticipee[of exemple_trois_nuls]
  have s: "SymX = SymX \<or> SymX = SymO" by simp
  have c: "[(0,0),(0,1),(0,2)] \<in> set combinaisons" by code_simp
  have n: "\<not> (\<forall>(r, c) \<in> set [(0,0),(0,1),(0,2)].
            vainqueur (at2 (plateaux exemple_trois_nuls) r c) \<noteq> Some (adversaire_de SymX) \<and>
            vainqueur (at2 (plateaux exemple_trois_nuls) r c) \<noteq> Some DRAW)"
    by code_simp
  from th[THEN conjunct1, rule_format, OF s c] n
  have f: "\<not> combo_ouverte (global_p exemple_trois_nuls) SymX [(0,0),(0,1),(0,2)]" by simp
  have h1: "\<not> jeu_termine_g exemple_trois_nuls" by code_simp
  have h2: "gagnant_global (global_p exemple_trois_nuls) = None" by code_simp
  have h3: "\<not> tous_termines exemple_trois_nuls" by code_simp
  have t: "jeu_termine_g (mu_mettre_a_jour_etat_global exemple_trois_nuls)" by code_simp
  note v = th[THEN conjunct2, rule_format, OF h1 h2 h3, THEN conjunct2, rule_format, OF t]
  from s c f h1 h2 h3 t v show ?thesis by (intro conjI)
qed

section \<open>Enumeration of the legal moves\<close>

lemma bien_forme_reinitialiser: "bien_forme mu_reinitialiser"
  by code_simp

lemma grille33_set2:
  assumes "grille33 g"
  shows "grille33 (set2 g l c v)"
proof -
  have "length x = 3" if "x \<in> set (g[nat l := (g ! nat l)[nat c := v]])" for x
  proof (cases "nat l < length g")
    case True
    from that set_update_subset_insert[of g "nat l" "(g ! nat l)[nat c := v]"]
    have "x = (g ! nat l)[nat c := v] \<or> x \<in> set g" by auto
    with True assms show ?thesis by (auto simp: grille33_def list_all_iff)
  next
    case False
    then have "g[nat l := (g ! nat l)[nat c := v]] = g" by (simp add: list_update_beyond)
    with that assms show ?thesis by (simp add: grille33_def list_all_iff)
  qed
  with assms show ?thesis by (simp add: grille33_def set2_def list_all_iff)
qed

lemma plateau_verifier [simp]: "plateau (pp_verifier_etat sp j) = plateau sp"
  by (simp add: pp_verifier_etat_def Let_def)

lemma grille33_pp_jouer_coup:
  "grille33 (plateau sp) \<Longrightarrow> grille33 (plateau (snd (pp_jouer_coup sp l c j)))"
  by (simp add: pp_jouer_coup_def grille33_set2)

lemma dans_set2:
  assumes "x \<in> set (set2 g l c v)" "y \<in> set x"
  shows "y = v \<or> (\<exists>x' \<in> set g. y \<in> set x')"
proof (cases "nat l < length g")
  case True
  from assms(1) set_update_subset_insert[of g "nat l" "(g ! nat l)[nat c := v]"]
  have "x = (g ! nat l)[nat c := v] \<or> x \<in> set g" by (auto simp: set2_def)
  then show ?thesis
  proof
    assume "x = (g ! nat l)[nat c := v]"
    with assms(2) set_update_subset_insert[of "g ! nat l" "nat c" v]
    have "y = v \<or> y \<in> set (g ! nat l)" by auto
    with True show ?thesis by (meson nth_mem)
  next
    assume "x \<in> set g"
    with assms(2) show ?thesis by blast
  qed
next
  case False
  then have "set2 g l c v = g" by (simp add: set2_def list_update_beyond)
  with assms show ?thesis by auto
qed

lemma bien_forme_jouer_coup:
  assumes bf: "bien_forme g"
  shows "bien_forme (snd (mu_jouer_coup g a b r c))"
proof (cases "fst (mu_jouer_coup g a b r c)")
  case False
  with mu_jouer_coup_echec_id[of g a b r c] bf show ?thesis by simp
next
  case True
  then have v: "mu_coup_valide g a b r c" "\<not> jeu_termine_g g"
    by (auto simp: mu_jouer_coup_def split: if_splits)
  let ?sp = "at2 (plateaux g) a b"
  let ?pl = "snd (pp_jouer_coup ?sp r c (joueur_courant g))"
  from v have rc: "0 \<le> r" "r < 3" "0 \<le> c" "c < 3"
    by (auto simp: mu_coup_valide_def pp_coup_valide_def Let_def split: if_splits)
  from v have ok: "fst (pp_jouer_coup ?sp r c (joueur_courant g))"
    by (auto simp: mu_coup_valide_def pp_jouer_coup_def Let_def split: if_splits)
  have px: "plateaux (snd (mu_jouer_coup g a b r c)) = set2 (plateaux g) a b ?pl"
    using v ok by (simp add: mu_jouer_coup_def Let_def split_def)
  have pa: "plateau_actif (snd (mu_jouer_coup g a b r c)) = None \<or>
            plateau_actif (snd (mu_jouer_coup g a b r c)) = Some (r, c)"
    using v ok by (simp add: mu_jouer_coup_def Let_def split_def)
  from bf have g1: "grille33 (plateaux g)" by (simp add: bien_forme_def)
  then have g2: "grille33 (set2 (plateaux g) a b ?pl)" by (rule grille33_set2)
  from bf have tous: "\<And>x y. x \<in> set (plateaux g) \<Longrightarrow> y \<in> set x \<Longrightarrow> grille33 (plateau y)"
    by (simp add: bien_forme_def list_all_iff)
  have "grille33 (plateau ?sp)"
  proof -
    from v have "0 \<le> a" "a < 3" "0 \<le> b" "b < 3"
      by (auto simp: mu_coup_valide_def split: if_splits)
    with g1 have "nat a < length (plateaux g)" "nat b < length (plateaux g ! nat a)"
      by (auto simp: grille33_def list_all_length)
    then have "plateaux g ! nat a \<in> set (plateaux g)" "?sp \<in> set (plateaux g ! nat a)"
      by (auto simp: at2_def)
    with tous show ?thesis by blast
  qed
  then have npl: "grille33 (plateau ?pl)" by (rule grille33_pp_jouer_coup)
  have g3: "grille33 (plateau y)" if "x \<in> set (set2 (plateaux g) a b ?pl)" "y \<in> set x" for x y
    using dans_set2[OF that] npl tous by blast
  from g2 g3 pa rc px show ?thesis
    by (auto simp: bien_forme_def list_all_iff)
qed

lemma mu_coup_valide_iff:
  "mu_coup_valide g a b i j \<longleftrightarrow>
     0 \<le> a \<and> a < 3 \<and> 0 \<le> b \<and> b < 3 \<and> \<not> jeu_termine (at2 (plateaux g) a b) \<and>
     (plateau_actif g = None \<or> plateau_actif g = Some (a, b)) \<and>
     pp_coup_valide (at2 (plateaux g) a b) i j"
  unfolding mu_coup_valide_def Let_def by (cases "plateau_actif g") auto

lemma set_coups_valides:
  assumes "bien_forme g"
  shows "set (mu_obtenir_coups_valides g) = {(a, b, i, j) | a b i j. mu_coup_valide g a b i j}"
proof (cases "plateau_actif g")
  case None
  have "{(a, b, i, j) | a b i j. mu_coup_valide g a b i j} =
        {(a, b, i, j) | a b i j. a \<in> {0, 1, 2} \<and> b \<in> {0, 1, 2} \<and>
           \<not> jeu_termine (at2 (plateaux g) a b) \<and> pp_coup_valide (at2 (plateaux g) a b) i j}"
    (is "?L = ?R")
  proof (intro set_eqI iffI)
    fix m assume "m \<in> ?L"
    then obtain a b i j where m: "m = (a, b, i, j)" and v: "mu_coup_valide g a b i j" by blast
    from v have "0 \<le> a" "a < 3" "0 \<le> b" "b < 3" "\<not> jeu_termine (at2 (plateaux g) a b)"
      "pp_coup_valide (at2 (plateaux g) a b) i j" by (simp_all add: mu_coup_valide_iff)
    with dans_range3[of a] dans_range3[of b] m show "m \<in> ?R" by simp
  next
    fix m assume "m \<in> ?R"
    then obtain a b i j where m: "m = (a, b, i, j)" and a: "a \<in> {0, 1, 2}" and b: "b \<in> {0, 1, 2}"
      and t: "\<not> jeu_termine (at2 (plateaux g) a b)" and v: "pp_coup_valide (at2 (plateaux g) a b) i j"
      by blast
    from a b have "0 \<le> a" "a < 3" "0 \<le> b" "b < 3" by auto
    with t v None have "mu_coup_valide g a b i j" by (simp add: mu_coup_valide_iff)
    with m show "m \<in> ?L" by blast
  qed
  with set_coups_libre[OF None] show ?thesis by simp
next
  case (Some p)
  obtain r c where p: "p = (r, c)" by (cases p)
  from Some p have pa: "plateau_actif g = Some (r, c)" by simp
  with assms have rc: "0 \<le> r" "r < 3" "0 \<le> c" "c < 3" by (simp_all add: bien_forme_def)
  have "{(a, b, i, j) | a b i j. mu_coup_valide g a b i j} =
        {(r, c, i, j) | i j. pp_coup_valide (at2 (plateaux g) r c) i j}"
    (is "?L = ?R")
  proof (intro set_eqI iffI)
    fix m assume "m \<in> ?L"
    then obtain a b i j where m: "m = (a, b, i, j)" and v: "mu_coup_valide g a b i j" by blast
    from v pa have "a = r" "b = c" "pp_coup_valide (at2 (plateaux g) a b) i j"
      by (simp_all add: mu_coup_valide_iff)
    with m show "m \<in> ?R" by simp
  next
    fix m assume "m \<in> ?R"
    then obtain i j where m: "m = (r, c, i, j)" and v: "pp_coup_valide (at2 (plateaux g) r c) i j"
      by blast
    from v have "\<not> jeu_termine (at2 (plateaux g) r c)" by (simp add: pp_coup_valide_def)
    with v rc pa have "mu_coup_valide g r c i j" by (simp add: mu_coup_valide_iff)
    with m show "m \<in> ?L" by blast
  qed
  with set_coups_contraint[OF pa] show ?thesis by simp
qed

lemma coups_sans_etat_global:
  "mu_obtenir_coups_valides (g\<lparr>jeu_termine_g := t, vainqueur_g := v\<rparr>) = mu_obtenir_coups_valides g"
  by (simp add: mu_obtenir_coups_valides_def split: option.splits prod.splits)

lemma mu_jouer_coup_succes_iff:
  "fst (mu_jouer_coup g a b r c) \<longleftrightarrow> mu_coup_valide g a b r c \<and> \<not> jeu_termine_g g"
proof (cases "mu_coup_valide g a b r c \<and> \<not> jeu_termine_g g")
  case False
  then show ?thesis by (auto simp: mu_jouer_coup_def)
next
  case True
  then have "pp_coup_valide (at2 (plateaux g) a b) r c" by (simp add: mu_coup_valide_iff)
  then have "fst (pp_jouer_coup (at2 (plateaux g) a b) r c (joueur_courant g))"
    by (simp add: pp_jouer_coup_def)
  with True show ?thesis by (simp add: mu_jouer_coup_def Let_def split_def)
qed

text \<open>
  Claim C2, as the code has it. On a well-shaped board \<^verbatim>\<open>obtenir_coups_valides\<close> lists
  exactly the moves that \<^verbatim>\<open>coup_valide\<close> accepts, and \<^verbatim>\<open>coup_valide\<close> accepts a move
  exactly when its sub-board is unfinished and allowed by \<^verbatim>\<open>plateau_actif\<close> and its cell
  is empty. So the list is empty if and only if no unfinished sub-board allowed by
  \<^verbatim>\<open>plateau_actif\<close> has an empty cell. The fields \<^verbatim>\<open>jeu_termine\<close> and \<^verbatim>\<open>vainqueur\<close> of the
  board are not consulted: changing them does not change the list. The finished game is
  stopped at acceptance: \<^verbatim>\<open>jouer_coup\<close> accepts a move exactly when \<^verbatim>\<open>coup_valide\<close>
  accepts it and \<^verbatim>\<open>jeu_termine\<close> is not set, and once \<^verbatim>\<open>jeu_termine\<close> is set it rejects
  every move and leaves the board as it is.
\<close>

theorem coups_valides_vide_ssi:
  "(bien_forme g \<longrightarrow>
      (mu_obtenir_coups_valides g = [] \<longleftrightarrow> (\<forall>a b i j. \<not> mu_coup_valide g a b i j))) \<and>
   (\<forall>a b i j. mu_coup_valide g a b i j \<longleftrightarrow>
      0 \<le> a \<and> a < 3 \<and> 0 \<le> b \<and> b < 3 \<and> 0 \<le> i \<and> i < 3 \<and> 0 \<le> j \<and> j < 3 \<and>
      \<not> jeu_termine (at2 (plateaux g) a b) \<and>
      (plateau_actif g = None \<or> plateau_actif g = Some (a, b)) \<and>
      at2 (plateau (at2 (plateaux g) a b)) i j = Vide) \<and>
   (\<forall>t v. mu_obtenir_coups_valides (g\<lparr>jeu_termine_g := t, vainqueur_g := v\<rparr>)
            = mu_obtenir_coups_valides g) \<and>
   (\<forall>a b i j. fst (mu_jouer_coup g a b i j) \<longleftrightarrow> mu_coup_valide g a b i j \<and> \<not> jeu_termine_g g) \<and>
   (jeu_termine_g g \<longrightarrow> (\<forall>a b i j. mu_jouer_coup g a b i j = (False, g)))"
proof (intro conjI impI allI)
  assume bf: "bien_forme g"
  have "mu_obtenir_coups_valides g = [] \<longleftrightarrow> set (mu_obtenir_coups_valides g) = {}" by simp
  also have "\<dots> \<longleftrightarrow> {(a, b, i, j) | a b i j. mu_coup_valide g a b i j} = {}"
    by (simp only: set_coups_valides[OF bf])
  also have "\<dots> \<longleftrightarrow> (\<forall>a b i j. \<not> mu_coup_valide g a b i j)" by blast
  finally show "mu_obtenir_coups_valides g = [] \<longleftrightarrow> (\<forall>a b i j. \<not> mu_coup_valide g a b i j)" .
next
  fix a b i j
  show "mu_coup_valide g a b i j \<longleftrightarrow>
      0 \<le> a \<and> a < 3 \<and> 0 \<le> b \<and> b < 3 \<and> 0 \<le> i \<and> i < 3 \<and> 0 \<le> j \<and> j < 3 \<and>
      \<not> jeu_termine (at2 (plateaux g) a b) \<and>
      (plateau_actif g = None \<or> plateau_actif g = Some (a, b)) \<and>
      at2 (plateau (at2 (plateaux g) a b)) i j = Vide"
    unfolding mu_coup_valide_iff pp_coup_valide_def by blast
next
  fix t v
  show "mu_obtenir_coups_valides (g\<lparr>jeu_termine_g := t, vainqueur_g := v\<rparr>) = mu_obtenir_coups_valides g"
    by (rule coups_sans_etat_global)
next
  fix a b i j
  show "fst (mu_jouer_coup g a b i j) \<longleftrightarrow> mu_coup_valide g a b i j \<and> \<not> jeu_termine_g g"
    by (rule mu_jouer_coup_succes_iff)
next
  fix a b i j
  assume "jeu_termine_g g"
  then show "mu_jouer_coup g a b i j = (False, g)" by (simp add: mu_jouer_coup_def)
qed

text \<open>
  The theorem at three boards reached by play: the board the game \<open>partie_victoire\<close> ends
  on (won by O, moves still listed, all rejected), the board the game \<open>partie_complete\<close>
  ends on (nothing listed, no move valid), and the board after the first ten moves of
  \<open>partie_victoire\<close> (game running, the eleventh move listed and accepted).
\<close>

theorem coups_valides_vide_ssi_witness:
  "bien_forme (plateau_apres partie_victoire) \<and>
   jeu_termine_g (plateau_apres partie_victoire) \<and>
   mu_coup_valide (plateau_apres partie_victoire) 1 0 0 0 \<and>
   mu_obtenir_coups_valides (plateau_apres partie_victoire) \<noteq> [] \<and>
   mu_jouer_coup (plateau_apres partie_victoire) 1 0 0 0 = (False, plateau_apres partie_victoire) \<and>
   bien_forme (plateau_apres partie_complete) \<and>
   mu_obtenir_coups_valides (plateau_apres partie_complete) = [] \<and>
   \<not> mu_coup_valide (plateau_apres partie_complete) 0 0 0 0 \<and>
   \<not> fst (mu_jouer_coup (plateau_apres partie_complete) 0 0 0 0) \<and>
   bien_forme (plateau_apres (take 10 partie_victoire)) \<and>
   \<not> jeu_termine_g (plateau_apres (take 10 partie_victoire)) \<and>
   mu_coup_valide (plateau_apres (take 10 partie_victoire)) 2 2 0 2 \<and>
   mu_obtenir_coups_valides (plateau_apres (take 10 partie_victoire)) \<noteq> [] \<and>
   fst (mu_jouer_coup (plateau_apres (take 10 partie_victoire)) 2 2 0 2)"
proof -
  let ?v = "plateau_apres partie_victoire"
  let ?c = "plateau_apres partie_complete"
  let ?m = "plateau_apres (take 10 partie_victoire)"
  have bv: "bien_forme ?v" by code_simp
  have tv: "jeu_termine_g ?v" by code_simp
  have vv: "mu_coup_valide ?v 1 0 0 0" by code_simp
  from coups_valides_vide_ssi[of ?v, THEN conjunct1, rule_format, OF bv] vv
  have nv: "mu_obtenir_coups_valides ?v \<noteq> []" by blast
  note coups_valides_vide_ssi[of ?v]
  from this[THEN conjunct2, THEN conjunct2, THEN conjunct2, THEN conjunct2, rule_format, OF tv]
  have rv: "mu_jouer_coup ?v 1 0 0 0 = (False, ?v)" .
  have bc: "bien_forme ?c" by code_simp
  have ec: "mu_obtenir_coups_valides ?c = []" by code_simp
  from coups_valides_vide_ssi[of ?c, THEN conjunct1, rule_format, OF bc] ec
  have ic: "\<not> mu_coup_valide ?c 0 0 0 0" by blast
  note coups_valides_vide_ssi[of ?c]
  from this[THEN conjunct2, THEN conjunct2, THEN conjunct2, THEN conjunct1, rule_format,
      of 0 0 0 0] ic
  have rc: "\<not> fst (mu_jouer_coup ?c 0 0 0 0)" by simp
  have bm: "bien_forme ?m" by code_simp
  have tm: "\<not> jeu_termine_g ?m" by code_simp
  have vm: "mu_coup_valide ?m 2 2 0 2" by code_simp
  from coups_valides_vide_ssi[of ?m, THEN conjunct1, rule_format, OF bm] vm
  have nm: "mu_obtenir_coups_valides ?m \<noteq> []" by blast
  note coups_valides_vide_ssi[of ?m]
  from this[THEN conjunct2, THEN conjunct2, THEN conjunct2, THEN conjunct1, rule_format,
      of 2 2 0 2] vm tm
  have am: "fst (mu_jouer_coup ?m 2 2 0 2)" by simp
  from bv tv vv nv rv bc ec ic rc bm tm vm nm am show ?thesis by (intro conjI)
qed

text \<open>
  Claim C2 as stated fails. In the game \<open>partie_victoire\<close> all 24 moves are accepted and
  the last one gives O the top row of the global grid. The game is over, won by O, and
  \<^verbatim>\<open>obtenir_coups_valides\<close> still returns the 36 empty cells of the unfinished sub-boards,
  the first being cell (0, 0) of sub-board (1, 0). In the game \<open>partie_nulle_anticipee\<close>
  all 43 moves are accepted and the game ends as an anticipated draw;
  \<^verbatim>\<open>obtenir_coups_valides\<close> still returns moves there too.
\<close>

theorem coups_apres_victoire_counterexample:
  "suite_acceptee mu_reinitialiser partie_victoire \<and>
   jeu_termine_g (plateau_apres partie_victoire) \<and>
   vainqueur_g (plateau_apres partie_victoire) = Some SymO \<and>
   map (map vainqueur) (plateaux (plateau_apres partie_victoire)) =
     [[Some SymO, Some SymO, Some SymO], [None, Some SymX, None], [None, None, None]] \<and>
   mu_obtenir_coups_valides (plateau_apres partie_victoire) \<noteq> [] \<and>
   length (mu_obtenir_coups_valides (plateau_apres partie_victoire)) = 36 \<and>
   hd (mu_obtenir_coups_valides (plateau_apres partie_victoire)) = (1, 0, 0, 0) \<and>
   suite_acceptee mu_reinitialiser partie_nulle_anticipee \<and>
   jeu_termine_g (plateau_apres partie_nulle_anticipee) \<and>
   vainqueur_g (plateau_apres partie_nulle_anticipee) = None \<and>
   mu_obtenir_coups_valides (plateau_apres partie_nulle_anticipee) \<noteq> []"
  by code_simp

section \<open>The greedy strategy\<close>

lemma sc_lt_trans_fini: "sc_lt ms (Fini a) \<Longrightarrow> a < b \<Longrightarrow> sc_lt ms (Fini b)"
  by (cases ms) auto

lemma sc_lt_entre: "\<not> sc_lt ms (Fini a) \<Longrightarrow> sc_lt ms (Fini b) \<Longrightarrow> a < b"
  by (cases ms) auto

lemma facile_boucle_rien:
  "\<forall>x \<in> set mvs. \<not> sc_lt ms (Fini (evaluer_ultime (simuler g x) j)) \<Longrightarrow>
   facile_boucle j g mvs (ms, mc) = (ms, mc)"
  by (induction mvs) (simp_all add: Let_def)

lemma facile_boucle_maximum:
  "\<exists>x \<in> set mvs. sc_lt ms (Fini (evaluer_ultime (simuler g x) j)) \<Longrightarrow>
   \<exists>avant mv apres. mvs = avant @ mv # apres \<and>
      facile_boucle j g mvs (ms, mc) = (Fini (evaluer_ultime (simuler g mv) j), Some mv) \<and>
      sc_lt ms (Fini (evaluer_ultime (simuler g mv) j)) \<and>
      (\<forall>x \<in> set avant. evaluer_ultime (simuler g x) j < evaluer_ultime (simuler g mv) j) \<and>
      (\<forall>x \<in> set apres. evaluer_ultime (simuler g x) j \<le> evaluer_ultime (simuler g mv) j)"
proof (induction mvs arbitrary: ms mc)
  case Nil
  then show ?case by simp
next
  case (Cons m reste)
  let ?sc = "\<lambda>x. evaluer_ultime (simuler g x) j"
  show ?case
  proof (cases "sc_lt ms (Fini (?sc m))")
    case True
    then have pas: "facile_boucle j g (m # reste) (ms, mc) =
                    facile_boucle j g reste (Fini (?sc m), Some m)"
      by (simp add: Let_def)
    show ?thesis
    proof (cases "\<exists>x \<in> set reste. sc_lt (Fini (?sc m)) (Fini (?sc x))")
      case False
      then have "facile_boucle j g reste (Fini (?sc m), Some m) = (Fini (?sc m), Some m)"
        by (intro facile_boucle_rien) simp
      moreover from False have "\<forall>x \<in> set reste. ?sc x \<le> ?sc m" by auto
      ultimately have "m # reste = [] @ m # reste \<and>
          facile_boucle j g (m # reste) (ms, mc) = (Fini (?sc m), Some m) \<and>
          sc_lt ms (Fini (?sc m)) \<and>
          (\<forall>x \<in> set []. ?sc x < ?sc m) \<and> (\<forall>x \<in> set reste. ?sc x \<le> ?sc m)"
        using pas True by simp
      then show ?thesis by blast
    next
      case plus: True
      from Cons.IH[OF plus, of "Some m"]
      obtain av mv ap where r: "reste = av @ mv # ap"
        and f: "facile_boucle j g reste (Fini (?sc m), Some m) = (Fini (?sc mv), Some mv)"
        and l: "sc_lt (Fini (?sc m)) (Fini (?sc mv))"
        and a: "\<forall>x \<in> set av. ?sc x < ?sc mv" and p: "\<forall>x \<in> set ap. ?sc x \<le> ?sc mv"
        by blast
      from l have lt: "?sc m < ?sc mv" by simp
      with True have "sc_lt ms (Fini (?sc mv))" by (rule sc_lt_trans_fini)
      with r f a p lt pas have "m # reste = (m # av) @ mv # ap \<and>
          facile_boucle j g (m # reste) (ms, mc) = (Fini (?sc mv), Some mv) \<and>
          sc_lt ms (Fini (?sc mv)) \<and>
          (\<forall>x \<in> set (m # av). ?sc x < ?sc mv) \<and> (\<forall>x \<in> set ap. ?sc x \<le> ?sc mv)"
        by simp
      then show ?thesis by blast
    qed
  next
    case False
    then have pas: "facile_boucle j g (m # reste) (ms, mc) = facile_boucle j g reste (ms, mc)"
      by (simp add: Let_def)
    from False Cons.prems have "\<exists>x \<in> set reste. sc_lt ms (Fini (?sc x))" by auto
    from Cons.IH[OF this, of mc]
    obtain av mv ap where r: "reste = av @ mv # ap"
      and f: "facile_boucle j g reste (ms, mc) = (Fini (?sc mv), Some mv)"
      and l: "sc_lt ms (Fini (?sc mv))"
      and a: "\<forall>x \<in> set av. ?sc x < ?sc mv" and p: "\<forall>x \<in> set ap. ?sc x \<le> ?sc mv"
      by blast
    from False l have "?sc m < ?sc mv" by (rule sc_lt_entre)
    with r f l a p pas have "m # reste = (m # av) @ mv # ap \<and>
          facile_boucle j g (m # reste) (ms, mc) = (Fini (?sc mv), Some mv) \<and>
          sc_lt ms (Fini (?sc mv)) \<and>
          (\<forall>x \<in> set (m # av). ?sc x < ?sc mv) \<and> (\<forall>x \<in> set ap. ?sc x \<le> ?sc mv)"
      by simp
    then show ?thesis by blast
  qed
qed

text \<open>
  Claim C9. \<^verbatim>\<open>IAFacile.get_move\<close> is a function of the board and of the strategy's
  symbol. Whenever \<^verbatim>\<open>obtenir_coups_valides\<close> is not empty it returns a move of that list
  such that every move listed before it has a strictly smaller score and every move listed
  after it has a score that is not greater: the earliest maximiser. The score of a move is
  \<^verbatim>\<open>evaluer_ultime\<close>, from the strategy's own symbol, of the board that \<^verbatim>\<open>jouer_coup\<close> with
  that move leaves in a clone of the board.
\<close>

theorem glouton_premier_maximum:
  "mu_obtenir_coups_valides g \<noteq> [] \<longrightarrow>
   (\<exists>avant a b r c apres.
      mu_obtenir_coups_valides g = avant @ (a, b, r, c) # apres \<and>
      ia_facile_get_move joueur g = Some (a, b, r, c) \<and>
      (\<forall>(a', b', r', c') \<in> set avant.
          evaluer_ultime (snd (mu_jouer_coup (mu_dupliquer g) a' b' r' c')) joueur
        < evaluer_ultime (snd (mu_jouer_coup (mu_dupliquer g) a b r c)) joueur) \<and>
      (\<forall>(a', b', r', c') \<in> set apres.
          evaluer_ultime (snd (mu_jouer_coup (mu_dupliquer g) a' b' r' c')) joueur
        \<le> evaluer_ultime (snd (mu_jouer_coup (mu_dupliquer g) a b r c)) joueur))"
proof
  let ?sc = "\<lambda>x. evaluer_ultime (simuler g x) joueur"
  assume ne: "mu_obtenir_coups_valides g \<noteq> []"
  then have "hd (mu_obtenir_coups_valides g) \<in> set (mu_obtenir_coups_valides g)"
    by (rule hd_in_set)
  then have "\<exists>x \<in> set (mu_obtenir_coups_valides g). sc_lt MoinsInf (Fini (?sc x))"
    by (intro bexI[of _ "hd (mu_obtenir_coups_valides g)"]) simp_all
  from facile_boucle_maximum[OF this, of None]
  obtain av mv ap where d: "mu_obtenir_coups_valides g = av @ mv # ap"
    and f: "facile_boucle joueur g (mu_obtenir_coups_valides g) (MoinsInf, None) =
       (Fini (?sc mv), Some mv)"
    and a: "\<forall>x \<in> set av. ?sc x < ?sc mv"
    and p: "\<forall>x \<in> set ap. ?sc x \<le> ?sc mv"
    by blast
  obtain a b r c where mv: "mv = (a, b, r, c)" by (cases mv)
  have sc: "?sc (a', b', r', c') =
      evaluer_ultime (snd (mu_jouer_coup (mu_dupliquer g) a' b' r' c')) joueur" for a' b' r' c'
    by (simp add: simuler_def)
  from f have g: "ia_facile_get_move joueur g = Some (a, b, r, c)"
    by (simp add: ia_facile_get_move_def mv)
  have a': "\<forall>(a', b', r', c') \<in> set av.
          evaluer_ultime (snd (mu_jouer_coup (mu_dupliquer g) a' b' r' c')) joueur
        < evaluer_ultime (snd (mu_jouer_coup (mu_dupliquer g) a b r c)) joueur"
  proof (intro ballI, clarify)
    fix a' b' r' c' assume "(a', b', r', c') \<in> set av"
    with a have "?sc (a', b', r', c') < ?sc mv" by blast
    then show "evaluer_ultime (snd (mu_jouer_coup (mu_dupliquer g) a' b' r' c')) joueur
        < evaluer_ultime (snd (mu_jouer_coup (mu_dupliquer g) a b r c)) joueur"
      by (simp only: sc mv)
  qed
  have p': "\<forall>(a', b', r', c') \<in> set ap.
          evaluer_ultime (snd (mu_jouer_coup (mu_dupliquer g) a' b' r' c')) joueur
        \<le> evaluer_ultime (snd (mu_jouer_coup (mu_dupliquer g) a b r c)) joueur"
  proof (intro ballI, clarify)
    fix a' b' r' c' assume "(a', b', r', c') \<in> set ap"
    with p have "?sc (a', b', r', c') \<le> ?sc mv" by blast
    then show "evaluer_ultime (snd (mu_jouer_coup (mu_dupliquer g) a' b' r' c')) joueur
        \<le> evaluer_ultime (snd (mu_jouer_coup (mu_dupliquer g) a b r c)) joueur"
      by (simp only: sc mv)
  qed
  from d[unfolded mv] g a' p'
  show "\<exists>avant a b r c apres.
      mu_obtenir_coups_valides g = avant @ (a, b, r, c) # apres \<and>
      ia_facile_get_move joueur g = Some (a, b, r, c) \<and>
      (\<forall>(a', b', r', c') \<in> set avant.
          evaluer_ultime (snd (mu_jouer_coup (mu_dupliquer g) a' b' r' c')) joueur
        < evaluer_ultime (snd (mu_jouer_coup (mu_dupliquer g) a b r c)) joueur) \<and>
      (\<forall>(a', b', r', c') \<in> set apres.
          evaluer_ultime (snd (mu_jouer_coup (mu_dupliquer g) a' b' r' c')) joueur
        \<le> evaluer_ultime (snd (mu_jouer_coup (mu_dupliquer g) a b r c)) joueur)"
    by blast
qed

section \<open>What the strategies return\<close>

lemma facile_boucle_dans:
  "snd (facile_boucle j g mvs (ms, mc)) = Some mv \<Longrightarrow> mc = Some mv \<or> mv \<in> set mvs"
proof (induction mvs arbitrary: ms mc)
  case Nil
  then show ?case by simp
next
  case (Cons m reste)
  show ?case
  proof (cases "sc_lt ms (Fini (evaluer_ultime (simuler g m) j))")
    case True
    with Cons.prems
    have "snd (facile_boucle j g reste (Fini (evaluer_ultime (simuler g m) j), Some m)) = Some mv"
      by (simp add: Let_def)
    from Cons.IH[OF this] show ?thesis by auto
  next
    case False
    with Cons.prems have "snd (facile_boucle j g reste (ms, mc)) = Some mv"
      by (simp add: Let_def)
    from Cons.IH[OF this] show ?thesis by auto
  qed
qed

lemma dif_boucle_dans:
  "fst (snd (dif_boucle j g mvs (ms, mc, al))) = Some mv \<Longrightarrow> mc = Some mv \<or> mv \<in> set mvs"
proof (induction mvs arbitrary: ms mc al)
  case Nil
  then show ?case by simp
next
  case (Cons m reste)
  let ?sc = "dif_minimax j (dif_profondeur_max - 1) (simuler g m) al PlusInf False"
  show ?case
  proof (cases "sc_lt ms ?sc")
    case True
    with Cons.prems
    have "fst (snd (dif_boucle j g reste (?sc, Some m, sc_max al ?sc))) = Some mv"
      by (simp add: Let_def)
    from Cons.IH[OF this] show ?thesis by auto
  next
    case False
    with Cons.prems have "fst (snd (dif_boucle j g reste (ms, mc, sc_max al ms))) = Some mv"
      by (simp add: Let_def)
    from Cons.IH[OF this] show ?thesis by auto
  qed
qed

lemma moy_boucle_dans:
  "x \<in> set (snd (moy_boucle j g mvs (ms, ml))) \<Longrightarrow> x \<in> set ml \<or> x \<in> set mvs"
proof (induction mvs arbitrary: ms ml)
  case Nil
  then show ?case by simp
next
  case (Cons m reste)
  let ?sc = "moy_minimax j (moy_profondeur_max - 1) (simuler g m) False"
  consider (plus) "sc_lt ms ?sc" | (egal) "\<not> sc_lt ms ?sc" "?sc = ms"
    | (moins) "\<not> sc_lt ms ?sc" "?sc \<noteq> ms" by blast
  then show ?case
  proof cases
    case plus
    with Cons.prems have "x \<in> set (snd (moy_boucle j g reste (?sc, [m])))"
      by (simp add: Let_def)
    from Cons.IH[OF this] show ?thesis by auto
  next
    case egal
    with Cons.prems have "x \<in> set (snd (moy_boucle j g reste (ms, ml @ [m])))"
      by (simp add: Let_def)
    from Cons.IH[OF this] show ?thesis by auto
  next
    case moins
    with Cons.prems have "x \<in> set (snd (moy_boucle j g reste (ms, ml)))"
      by (simp add: Let_def)
    from Cons.IH[OF this] show ?thesis by auto
  qed
qed

lemma choice_dans: "choice k xs = Inr x \<Longrightarrow> x \<in> set xs"
  by (auto simp: choice_def split: if_splits)

lemma ia_facile_dans:
  "ia_facile_get_move j g = Some mv \<Longrightarrow> mv \<in> set (mu_obtenir_coups_valides g)"
  using facile_boucle_dans[of j g "mu_obtenir_coups_valides g" MoinsInf None mv]
  by (simp add: ia_facile_get_move_def)

lemma ia_difficile_dans:
  "ia_difficile_get_move j g = Some mv \<Longrightarrow> mv \<in> set (mu_obtenir_coups_valides g)"
  using dif_boucle_dans[of j g "mu_obtenir_coups_valides g" MoinsInf None MoinsInf mv]
  by (simp add: ia_difficile_get_move_def)

lemma ia_moyenne_dans:
  assumes "ia_moyenne_get_move j erreur k g = Inr mv"
  shows "mv \<in> set (mu_obtenir_coups_valides g)"
proof (cases erreur)
  case True
  with assms show ?thesis by (simp add: ia_moyenne_get_move_def choice_dans)
next
  case False
  with assms have "mv \<in> set (snd (moy_boucle j g (mu_obtenir_coups_valides g) (MoinsInf, [])))"
    by (simp add: ia_moyenne_get_move_def choice_dans)
  from moy_boucle_dans[OF this] show ?thesis by simp
qed

lemma ia_sans_coup:
  assumes "mu_obtenir_coups_valides g = []"
  shows "ia_facile_get_move j g = None" "ia_difficile_get_move j g = None"
    "ia_moyenne_get_move j erreur k g = Inl IndexError"
  using assms
  by (simp_all add: ia_facile_get_move_def ia_difficile_get_move_def ia_moyenne_get_move_def
      choice_def)

text \<open>
  Claim C10, as the code has it. Whatever move \<^verbatim>\<open>get_move\<close> of \<^verbatim>\<open>IAFacile\<close>,
  \<^verbatim>\<open>IAMoyenne\<close> or \<^verbatim>\<open>IADifficile\<close> returns is an element of
  \<^verbatim>\<open>obtenir_coups_valides\<close> of the board passed in. On a well-shaped board, an element of
  that list is accepted by \<^verbatim>\<open>jouer_coup\<close> exactly when the game is not over.
\<close>

theorem coup_choisi_est_valide:
  "(\<forall>mv. ia_facile_get_move j g = Some mv \<longrightarrow> mv \<in> set (mu_obtenir_coups_valides g)) \<and>
   (\<forall>mv. ia_moyenne_get_move j erreur k g = Inr mv \<longrightarrow> mv \<in> set (mu_obtenir_coups_valides g)) \<and>
   (\<forall>mv. ia_difficile_get_move j g = Some mv \<longrightarrow> mv \<in> set (mu_obtenir_coups_valides g)) \<and>
   (\<forall>a b r c. bien_forme g \<longrightarrow> (a, b, r, c) \<in> set (mu_obtenir_coups_valides g) \<longrightarrow>
      (fst (mu_jouer_coup g a b r c) \<longleftrightarrow> \<not> jeu_termine_g g))"
proof (intro conjI allI impI)
  fix mv assume "ia_facile_get_move j g = Some mv"
  then show "mv \<in> set (mu_obtenir_coups_valides g)" by (rule ia_facile_dans)
next
  fix mv assume "ia_moyenne_get_move j erreur k g = Inr mv"
  then show "mv \<in> set (mu_obtenir_coups_valides g)" by (rule ia_moyenne_dans)
next
  fix mv assume "ia_difficile_get_move j g = Some mv"
  then show "mv \<in> set (mu_obtenir_coups_valides g)" by (rule ia_difficile_dans)
next
  fix a b r c
  assume bf: "bien_forme g" and m: "(a, b, r, c) \<in> set (mu_obtenir_coups_valides g)"
  from m have "mu_coup_valide g a b r c" by (simp add: set_coups_valides[OF bf])
  then show "fst (mu_jouer_coup g a b r c) \<longleftrightarrow> \<not> jeu_termine_g g"
    by (simp add: mu_jouer_coup_succes_iff)
qed

theorem coup_choisi_est_valide_witness:
  "ia_facile_get_move SymX exemple_diagonale = Some (2, 2, 0, 0) \<and>
   ia_moyenne_get_move SymX False 0 exemple_diagonale = Inr (2, 2, 0, 0) \<and>
   ia_difficile_get_move SymX exemple_diagonale = Some (2, 2, 0, 0) \<and>
   bien_forme exemple_diagonale \<and>
   (2, 2, 0, 0) \<in> set (mu_obtenir_coups_valides exemple_diagonale) \<and>
   \<not> jeu_termine_g exemple_diagonale \<and>
   fst (mu_jouer_coup exemple_diagonale 2 2 0 0)"
proof -
  note th = coup_choisi_est_valide[of SymX exemple_diagonale False 0]
  have f: "ia_facile_get_move SymX exemple_diagonale = Some (2, 2, 0, 0)" by code_simp
  have m: "ia_moyenne_get_move SymX False 0 exemple_diagonale = Inr (2, 2, 0, 0)" by code_simp
  have d: "ia_difficile_get_move SymX exemple_diagonale = Some (2, 2, 0, 0)" by code_simp
  have bf: "bien_forme exemple_diagonale" by code_simp
  have nt: "\<not> jeu_termine_g exemple_diagonale" by code_simp
  note e1 = th[THEN conjunct1, rule_format, OF f]
  note e2 = th[THEN conjunct2, THEN conjunct1, rule_format, OF m]
  note e3 = th[THEN conjunct2, THEN conjunct2, THEN conjunct1, rule_format, OF d]
  note acc = th[THEN conjunct2, THEN conjunct2, THEN conjunct2, rule_format, OF bf e1]
  from acc nt have ok: "fst (mu_jouer_coup exemple_diagonale 2 2 0 0)" by simp
  from f m d bf e1 nt ok show ?thesis by (intro conjI)
qed

text \<open>
  Claim C10 as stated fails in its last part. The game \<open>partie_victoire\<close> ends with a
  global win of O while six sub-boards are unfinished. On that board
  \<^verbatim>\<open>IAFacile.get_move\<close> returns the first listed move, which is an element of
  \<^verbatim>\<open>obtenir_coups_valides\<close>, and \<^verbatim>\<open>jouer_coup\<close> rejects it.
\<close>

theorem coup_choisi_refuse_counterexample:
  "jeu_termine_g (plateau_apres partie_victoire) \<and>
   vainqueur_g (plateau_apres partie_victoire) = Some SymO \<and>
   ia_facile_get_move SymX (plateau_apres partie_victoire) = Some (1, 0, 0, 0) \<and>
   (1, 0, 0, 0) \<in> set (mu_obtenir_coups_valides (plateau_apres partie_victoire)) \<and>
   \<not> fst (mu_jouer_coup (plateau_apres partie_victoire) 1 0 0 0)"
  by code_simp

text \<open>
  Claim C3 fails for \<^verbatim>\<open>IAMoyenne\<close>. The game \<open>partie_complete\<close> ends on a board whose
  nine sub-boards are all finished, so \<^verbatim>\<open>obtenir_coups_valides\<close> is empty. There
  \<^verbatim>\<open>IAFacile.get_move\<close> and \<^verbatim>\<open>IADifficile.get_move\<close> return \<^verbatim>\<open>None\<close>, whereas
  \<^verbatim>\<open>IAMoyenne.get_move\<close> raises \<^verbatim>\<open>IndexError\<close> from \<^verbatim>\<open>random.choice\<close> on an empty list,
  on the random branch as well as on the minimax branch, whatever the random draws.
\<close>

theorem ia_moyenne_faute_sans_coup:
  "mu_obtenir_coups_valides (plateau_apres partie_complete) = [] \<and>
   ia_facile_get_move j (plateau_apres partie_complete) = None \<and>
   ia_difficile_get_move j (plateau_apres partie_complete) = None \<and>
   ia_moyenne_get_move j True k (plateau_apres partie_complete) = Inl IndexError \<and>
   ia_moyenne_get_move j False k (plateau_apres partie_complete) = Inl IndexError"
proof -
  have v: "mu_obtenir_coups_valides (plateau_apres partie_complete) = []" by code_simp
  from v ia_sans_coup[OF v] show ?thesis by (intro conjI)
qed

text \<open>
  Claim C5 fails on the center bonus. After 40 moves of \<open>partie_nulle_anticipee\<close> the game
  is still running and sub-board (0, 2) is drawn, with X in its center. In
  \<^verbatim>\<open>evaluer_ultime\<close> that sub-board falls into the \<^verbatim>\<open>else\<close> branch and
  \<^verbatim>\<open>evaluer_sous_plateau\<close> gives it +20 from the perspective of X and -20 from the
  perspective of O, instead of 0. The drawn sub-board \<open>sp_nul\<close>, with O in its center, gives
  -20 from the perspective of X.
\<close>

theorem sous_plateau_nul_contribue:
  "\<not> jeu_termine_g (plateau_apres (take 40 partie_nulle_anticipee)) \<and>
   vainqueur (at2 (plateaux (plateau_apres (take 40 partie_nulle_anticipee))) 0 2) = Some DRAW \<and>
   plateau (at2 (plateaux (plateau_apres (take 40 partie_nulle_anticipee))) 0 2) =
     [[SymX, SymO, SymX], [SymO, SymX, SymO], [SymO, SymX, SymO]] \<and>
   contribution_sous_plateau (at2 (plateaux (plateau_apres (take 40 partie_nulle_anticipee))) 0 2) SymX = 20 \<and>
   contribution_sous_plateau (at2 (plateaux (plateau_apres (take 40 partie_nulle_anticipee))) 0 2) SymO = - 20 \<and>
   contribution_sous_plateau sp_nul SymX = - 20"
  by code_simp

text \<open>
  The theorem on the initial board, for the strategy playing X. Of the 81 listed moves the
  first is (0, 0, 0, 0), with score 30; the move returned is the fifth, the center of
  sub-board (0, 0), with score 60, greater than the scores 30, 20, 30, 20 of the four
  moves before it. The center of sub-board (0, 1), listed later, has the same score 60
  and is not returned.
\<close>

theorem glouton_premier_maximum_witness:
  "mu_obtenir_coups_valides mu_reinitialiser \<noteq> [] \<and>
   ia_facile_get_move SymX mu_reinitialiser = Some (0, 0, 1, 1) \<and>
   length (mu_obtenir_coups_valides mu_reinitialiser) = 81 \<and>
   take 5 (mu_obtenir_coups_valides mu_reinitialiser) =
     [(0, 0, 0, 0), (0, 0, 0, 1), (0, 0, 0, 2), (0, 0, 1, 0), (0, 0, 1, 1)] \<and>
   map (\<lambda>(a, b, r, c). evaluer_ultime (snd (mu_jouer_coup (mu_dupliquer mu_reinitialiser) a b r c)) SymX)
       (take 5 (mu_obtenir_coups_valides mu_reinitialiser)) = [30, 20, 30, 20, 60] \<and>
   mu_obtenir_coups_valides mu_reinitialiser ! 13 = (0, 1, 1, 1) \<and>
   evaluer_ultime (snd (mu_jouer_coup (mu_dupliquer mu_reinitialiser) 0 1 1 1)) SymX = 60 \<and>
   (\<exists>avant a b r c apres.
      mu_obtenir_coups_valides mu_reinitialiser = avant @ (a, b, r, c) # apres \<and>
      ia_facile_get_move SymX mu_reinitialiser = Some (a, b, r, c) \<and>
      (\<forall>(a', b', r', c') \<in> set avant.
          evaluer_ultime (snd (mu_jouer_coup (mu_dupliquer mu_reinitialiser) a' b' r' c')) SymX
        < evaluer_ultime (snd (mu_jouer_coup (mu_dupliquer mu_reinitialiser) a b r c)) SymX) \<and>
      (\<forall>(a', b', r', c') \<in> set apres.
          evaluer_ultime (snd (mu_jouer_coup (mu_dupliquer mu_reinitialiser) a' b' r' c')) SymX
        \<le> evaluer_ultime (snd (mu_jouer_coup (mu_dupliquer mu_reinitialiser) a b r c)) SymX))"
proof -
  have ne: "mu_obtenir_coups_valides mu_reinitialiser \<noteq> []" by code_simp
  have f: "ia_facile_get_move SymX mu_reinitialiser = Some (0, 0, 1, 1)" by code_simp
  have l: "length (mu_obtenir_coups_valides mu_reinitialiser) = 81" by code_simp
  have t: "take 5 (mu_obtenir_coups_valides mu_reinitialiser) =
     [(0, 0, 0, 0), (0, 0, 0, 1), (0, 0, 0, 2), (0, 0, 1, 0), (0, 0, 1, 1)]" by code_simp
  have s: "map (\<lambda>(a, b, r, c). evaluer_ultime (snd (mu_jouer_coup (mu_dupliquer mu_reinitialiser) a b r c)) SymX)
       (take 5 (mu_obtenir_coups_valides mu_reinitialiser)) = [30, 20, 30, 20, 60]" by code_simp
  have n: "mu_obtenir_coups_valides mu_reinitialiser ! 13 = (0, 1, 1, 1)" by code_simp
  have e: "evaluer_ultime (snd (mu_jouer_coup (mu_dupliquer mu_reinitialiser) 0 1 1 1)) SymX = 60"
    by code_simp
  note ex = glouton_premier_maximum[of mu_reinitialiser SymX, rule_format, OF ne]
  from ne f l t s n e ex show ?thesis by (intro conjI)
qed

section \<open>Allocation extends the store\<close>

lemma etend_refl: "etend t t"
  by (simp add: etend_def)

lemma etend_trans: "etend t t1 \<Longrightarrow> etend t1 t2 \<Longrightarrow> etend t t2"
  by (auto simp: etend_def)

lemma etend_suivant: "etend t t' \<Longrightarrow> suivant t \<le> suivant t'"
  by (simp add: etend_def)

lemma etend_pp:
  assumes "pp_clos t p" "etend t t'"
  shows "petits t' p = petits t p" "lire_pp t' p = lire_pp t p" "pp_clos t' p"
proof -
  from assms show p: "petits t' p = petits t p" by (simp add: pp_clos_def etend_def)
  from assms have l: "\<forall>l \<in> set (o_plateau (petits t p)). lignes t' l = lignes t l"
    by (simp add: pp_clos_def etend_def)
  then have "map (lignes t') (o_plateau (petits t p)) = map (lignes t) (o_plateau (petits t p))"
    by simp
  with p show "lire_pp t' p = lire_pp t p" by (simp add: lire_pp_def)
  from assms p show "pp_clos t' p" by (auto simp: pp_clos_def etend_def)
qed

lemma etend_mu:
  assumes "mu_clos t g" "etend t t'"
  shows "morpions t' g = morpions t g" "lire_mu t' g = lire_mu t g" "mu_clos t' g"
proof -
  from assms show m: "morpions t' g = morpions t g" by (simp add: mu_clos_def etend_def)
  from assms have c: "\<forall>ps \<in> set (o_plateaux (morpions t g)). \<forall>p \<in> set ps. pp_clos t p"
    by (simp add: mu_clos_def)
  then have "\<forall>ps \<in> set (o_plateaux (morpions t g)). map (lire_pp t') ps = map (lire_pp t) ps"
    using etend_pp(2)[OF _ assms(2)] by simp
  then have "map (map (lire_pp t')) (o_plateaux (morpions t g)) =
             map (map (lire_pp t)) (o_plateaux (morpions t g))" by simp
  with m show "lire_mu t' g = lire_mu t g" by (simp add: lire_mu_def)
  from c have "\<forall>ps \<in> set (o_plateaux (morpions t g)). \<forall>p \<in> set ps. pp_clos t' p"
    using etend_pp(3)[OF _ assms(2)] by blast
  with assms m show "mu_clos t' g" by (auto simp: mu_clos_def etend_def)
qed

lemma pp_frais_etend:
  assumes "pp_frais n t p" "pp_clos t p" "etend t t'"
  shows "pp_frais n t' p"
  using assms etend_pp(1)[OF assms(2,3)] by (simp add: pp_frais_def)

text \<open>The threaded comprehension, for a step that extends the store.\<close>

lemma t_map_spec:
  assumes step: "\<And>t x. P t x \<Longrightarrow> etend t (snd (f t x)) \<and> R (snd (f t x)) x (fst (f t x))"
    and stableP: "\<And>t t' x. P t x \<Longrightarrow> etend t t' \<Longrightarrow> P t' x"
    and stableR: "\<And>t t' x y. R t x y \<Longrightarrow> etend t t' \<Longrightarrow> R t' x y"
    and pre: "\<forall>x \<in> set xs. P t x"
  shows "etend t (snd (t_map f t xs)) \<and> list_all2 (R (snd (t_map f t xs))) xs (fst (t_map f t xs))"
  using pre
proof (induction xs arbitrary: t)
  case Nil
  then show ?case by (simp add: etend_refl)
next
  case (Cons x xs)
  let ?t1 = "snd (f t x)"
  let ?y = "fst (f t x)"
  from Cons.prems have px: "P t x" by simp
  from step[OF px] have e1: "etend t ?t1" and r1: "R ?t1 x ?y" by simp_all
  from Cons.prems stableP e1 have "\<forall>x \<in> set xs. P ?t1 x" by auto
  from Cons.IH[OF this]
  have e2: "etend ?t1 (snd (t_map f ?t1 xs))"
    and r2: "list_all2 (R (snd (t_map f ?t1 xs))) xs (fst (t_map f ?t1 xs))" by simp_all
  have dev: "t_map f t (x # xs) = (?y # fst (t_map f ?t1 xs), snd (t_map f ?t1 xs))"
    by (simp add: split_def Let_def)
  from stableR[OF r1 e2] r2 etend_trans[OF e1 e2] show ?case
    by (simp add: dev del: t_map.simps)
qed

lemma t_map_Cons:
  "t_map f t (x # xs) =
     (fst (f t x) # fst (t_map f (snd (f t x)) xs), snd (t_map f (snd (f t x)) xs))"
  by (simp add: split_def Let_def)

lemma alloue_ligne_spec:
  "etend t (snd (t_alloue_ligne t c)) \<and>
   suivant t \<le> fst (t_alloue_ligne t c) \<and>
   fst (t_alloue_ligne t c) < suivant (snd (t_alloue_ligne t c)) \<and>
   lignes (snd (t_alloue_ligne t c)) (fst (t_alloue_ligne t c)) = c"
  by (simp add: t_alloue_ligne_def etend_def)

lemma ligne_ok_etend: "ligne_ok n contenu t x l \<Longrightarrow> etend t t' \<Longrightarrow> ligne_ok n contenu t' x l"
  by (auto simp: ligne_ok_def etend_def)

lemma alloue_lignes_spec:
  assumes "\<forall>x \<in> set xs. c t x = contenu x \<and> (\<forall>t'. etend t t' \<longrightarrow> c t' x = c t x)"
  shows "etend t (snd (t_map (\<lambda>t x. t_alloue_ligne t (c t x)) t xs)) \<and>
         list_all2 (ligne_ok (suivant t) contenu (snd (t_map (\<lambda>t x. t_alloue_ligne t (c t x)) t xs)))
           xs (fst (t_map (\<lambda>t x. t_alloue_ligne t (c t x)) t xs))"
proof (rule t_map_spec[where P = "\<lambda>t' x. suivant t \<le> suivant t' \<and> c t' x = contenu x \<and>
                                     (\<forall>t''. etend t' t'' \<longrightarrow> c t'' x = c t' x)"])
  fix t' x
  assume "suivant t \<le> suivant t' \<and> c t' x = contenu x \<and> (\<forall>t''. etend t' t'' \<longrightarrow> c t'' x = c t' x)"
  with alloue_ligne_spec[of t' "c t' x"]
  show "etend t' (snd (t_alloue_ligne t' (c t' x))) \<and>
        ligne_ok (suivant t) contenu (snd (t_alloue_ligne t' (c t' x))) x
          (fst (t_alloue_ligne t' (c t' x)))"
    by (simp add: ligne_ok_def)
next
  fix t' t'' x
  assume p: "suivant t \<le> suivant t' \<and> c t' x = contenu x \<and> (\<forall>t''. etend t' t'' \<longrightarrow> c t'' x = c t' x)"
    and e: "etend t' t''"
  from p e have "c t'' x = contenu x" by simp
  moreover from p e have "\<forall>t3. etend t'' t3 \<longrightarrow> c t3 x = c t'' x"
    using etend_trans[OF e] by simp
  moreover from p e have "suivant t \<le> suivant t''" by (simp add: etend_def)
  ultimately show "suivant t \<le> suivant t'' \<and> c t'' x = contenu x \<and>
                   (\<forall>t3. etend t'' t3 \<longrightarrow> c t3 x = c t'' x)" by simp
next
  fix t' t'' x y
  assume "ligne_ok (suivant t) contenu t' x y" "etend t' t''"
  then show "ligne_ok (suivant t) contenu t'' x y" by (rule ligne_ok_etend)
next
  from assms show "\<forall>x \<in> set xs. suivant t \<le> suivant t \<and> c t x = contenu x \<and>
                    (\<forall>t''. etend t t'' \<longrightarrow> c t'' x = c t x)" by simp
qed

lemma pp_ok_etend: "pp_ok n v t y \<Longrightarrow> etend t t' \<Longrightarrow> pp_ok n v t' y"
  using etend_pp[of t y t'] by (simp add: pp_ok_def pp_frais_def)

lemma lignes_ok:
  "list_all2 (ligne_ok n contenu t) xs ls \<Longrightarrow>
   map (lignes t) ls = map contenu xs \<and> (\<forall>l \<in> set ls. n \<le> l \<and> l < suivant t) \<and>
   length ls = length xs"
  by (induction xs ls rule: list_all2_induct) (simp_all add: ligne_ok_def)

lemma pp_nouveau_spec:
  "etend t (snd (t_pp_nouveau t)) \<and> fst (t_pp_nouveau t) = suivant t \<and>
   pp_ok (suivant t) pp_reinitialiser (snd (t_pp_nouveau t)) (fst (t_pp_nouveau t))"
proof -
  let ?self = "suivant t"
  let ?t0 = "t\<lparr>suivant := Suc ?self\<rparr>"
  let ?rows = "map (\<lambda>_. map (\<lambda>_. Vide) range3) range3 :: chaine list list"
  let ?r = "t_map (\<lambda>t x. t_alloue_ligne t x) ?t0 ?rows"
  let ?ls = "fst ?r" and ?t1 = "snd ?r"
  let ?t' = "?t1\<lparr>petits := (petits ?t1)(?self :=
                   \<lparr>o_plateau = ?ls, o_vainqueur = None, o_jeu_termine = False\<rparr>)\<rparr>"
  have dev: "t_pp_nouveau t = (?self, ?t')"
    by (simp add: t_pp_nouveau_def Let_def split_def del: t_map.simps)
  have "etend ?t0 ?t1 \<and> list_all2 (ligne_ok (suivant ?t0) (\<lambda>x. x) ?t1) ?rows ?ls"
    by (rule alloue_lignes_spec[where c = "\<lambda>t x. x"]) simp
  then have e01: "etend ?t0 ?t1" and la: "list_all2 (ligne_ok (Suc ?self) (\<lambda>x. x) ?t1) ?rows ?ls"
    by simp_all
  from lignes_ok[OF la]
  have m: "map (lignes ?t1) ?ls = ?rows" and b: "\<forall>l \<in> set ?ls. Suc ?self \<le> l \<and> l < suivant ?t1"
    and len: "length ?ls = 3" by simp_all
  from e01 have s: "Suc ?self \<le> suivant ?t1" by (simp add: etend_def)
  from e01 have ag: "\<forall>a < Suc ?self. lignes ?t1 a = lignes t a \<and> petits ?t1 a = petits t a \<and>
                       morpions ?t1 a = morpions t a" by (simp add: etend_def)
  have e: "etend t ?t'"
    using s ag by (simp add: etend_def)
  have c: "pp_clos ?t' ?self" using s b by (auto simp: pp_clos_def)
  have f: "pp_frais ?self ?t' ?self" using b by (auto simp: pp_frais_def)
  have l: "lire_pp ?t' ?self = pp_reinitialiser"
    using m by (simp add: lire_pp_def pp_reinitialiser_def)
  have "pp_ok ?self pp_reinitialiser ?t' ?self"
    using c f l len by (simp add: pp_ok_def pp_reinitialiser_def)
  with e show ?thesis by (simp only: dev fst_conv snd_conv simp_thms)
qed

lemma pp_dupliquer_spec:
  assumes clos: "pp_clos t sp"
  shows "etend t (snd (t_pp_dupliquer t sp)) \<and>
         pp_ok (suivant t) (lire_pp t sp) (snd (t_pp_dupliquer t sp)) (fst (t_pp_dupliquer t sp))"
proof -
  let ?n = "suivant t"
  let ?t1 = "snd (t_pp_nouveau t)"
  let ?rs = "o_plateau (petits ?t1 sp)"
  let ?r = "t_map (\<lambda>t ligne. t_alloue_ligne t (lignes t ligne)) ?t1 ?rs"
  let ?ls = "fst ?r" and ?t2 = "snd ?r"
  let ?t' = "?t2\<lparr>petits := (petits ?t2)(?n :=
                   \<lparr>o_plateau = ?ls, o_vainqueur = o_vainqueur (petits ?t2 sp),
                    o_jeu_termine = o_jeu_termine (petits ?t2 sp)\<rparr>)\<rparr>"
  from pp_nouveau_spec[of t] have e1: "etend t ?t1" and n: "fst (t_pp_nouveau t) = ?n" by simp_all
  have dev: "t_pp_dupliquer t sp = (?n, ?t')"
    using n by (simp add: t_pp_dupliquer_def Let_def split_def del: t_map.simps)
  from etend_pp[OF clos e1] have p1: "petits ?t1 sp = petits t sp" and c1: "pp_clos ?t1 sp" by simp_all
  from clos have rb: "\<forall>r \<in> set (o_plateau (petits t sp)). r < ?n" by (simp add: pp_clos_def)
  have pre: "\<forall>x \<in> set ?rs. lignes ?t1 x = lignes t x \<and>
               (\<forall>t'. etend ?t1 t' \<longrightarrow> lignes t' x = lignes ?t1 x)"
  proof
    fix x assume "x \<in> set ?rs"
    with p1 rb have x: "x < ?n" by simp
    with e1 have "lignes ?t1 x = lignes t x" by (simp add: etend_def)
    moreover from x e1 have "x < suivant ?t1" by (simp add: etend_def)
    then have "\<forall>t'. etend ?t1 t' \<longrightarrow> lignes t' x = lignes ?t1 x" by (simp add: etend_def)
    ultimately show "lignes ?t1 x = lignes t x \<and>
               (\<forall>t'. etend ?t1 t' \<longrightarrow> lignes t' x = lignes ?t1 x)" by simp
  qed
  have "etend ?t1 ?t2 \<and> list_all2 (ligne_ok (suivant ?t1) (lignes t) ?t2) ?rs ?ls"
    by (rule alloue_lignes_spec[where c = "\<lambda>t x. lignes t x"]) (rule pre)
  then have e12: "etend ?t1 ?t2" and la: "list_all2 (ligne_ok (suivant ?t1) (lignes t) ?t2) ?rs ?ls"
    by simp_all
  from lignes_ok[OF la]
  have m: "map (lignes ?t2) ?ls = map (lignes t) ?rs"
    and b: "\<forall>l \<in> set ?ls. suivant ?t1 \<le> l \<and> l < suivant ?t2"
    and len: "length ?ls = length ?rs" by simp_all
  have e2: "etend t ?t2" using e1 e12 by (rule etend_trans)
  from etend_pp[OF clos e2] have p2: "petits ?t2 sp = petits t sp" by simp
  from e1 have s1: "?n \<le> suivant ?t1" by (simp add: etend_def)
  from pp_nouveau_spec[of t] n have "?n < suivant ?t1" by (simp add: pp_ok_def pp_clos_def)
  with e12 have s2: "?n < suivant ?t2" by (simp add: etend_def)
  have e: "etend t ?t'" using e2 by (simp add: etend_def)
  have c: "pp_clos ?t' ?n" using s2 b by (auto simp: pp_clos_def)
  have f: "pp_frais ?n ?t' ?n" using b s1 by (auto simp: pp_frais_def)
  have l: "lire_pp ?t' ?n = lire_pp t sp"
    using m p1 p2 by (simp add: lire_pp_def)
  have "pp_ok ?n (lire_pp t sp) ?t' ?n"
    using c f l len p1 by (simp add: pp_ok_def lire_pp_def)
  with e show ?thesis by (simp only: dev fst_conv snd_conv simp_thms)
qed

declare t_map.simps [simp del]

lemma pp_ok_mono: "pp_ok m v t y \<Longrightarrow> n \<le> m \<Longrightarrow> pp_ok n v t y"
  by (auto simp: pp_ok_def pp_frais_def)

lemma list_all2_range3:
  "list_all2 R range3 ys \<longleftrightarrow> (\<exists>y0 y1 y2. ys = [y0, y1, y2] \<and> R 0 y0 \<and> R 1 y1 \<and> R 2 y2)"
  by (auto simp: list_all2_Cons1)

lemma grille33_forme:
  "grille33 g \<Longrightarrow> \<exists>a b c d e f x y z. g = [[a, b, c], [d, e, f], [x, y, z]]"
proof -
  have trois: "length l = 3 \<Longrightarrow> \<exists>a b c. l = [a, b, c]" for l :: "'b list"
    by (cases l; cases "tl l"; cases "tl (tl l)") auto
  assume "grille33 g"
  then have lg: "length g = 3" and ll: "\<forall>l \<in> set g. length l = 3"
    by (simp_all add: grille33_def list_all_iff)
  from trois[OF lg] obtain r0 r1 r2 where g: "g = [r0, r1, r2]" by blast
  with ll have "length r0 = 3" "length r1 = 3" "length r2 = 3" by simp_all
  with trois[of r0] trois[of r1] trois[of r2] g show ?thesis by blast
qed

lemma map_map_grille33:
  assumes "grille33 g"
  shows "map (map f) g = map (\<lambda>i. map (\<lambda>j. f (at2 g i j)) range3) range3"
proof -
  from grille33_forme[OF assms] obtain a b c d e k x y z
    where "g = [[a, b, c], [d, e, k], [x, y, z]]" by blast
  then show ?thesis by (simp add: at2_def)
qed

lemma at2_dans_grille33:
  assumes "grille33 g" "i \<in> set range3" "j \<in> set range3"
  shows "\<exists>ps \<in> set g. at2 g i j \<in> set ps"
proof -
  from grille33_forme[OF assms(1)] obtain a b c d e k x y z
    where g: "g = [[a, b, c], [d, e, k], [x, y, z]]" by blast
  from assms(2,3) have "(i = 0 \<or> i = 1 \<or> i = 2) \<and> (j = 0 \<or> j = 1 \<or> j = 2)" by simp
  then show ?thesis unfolding g at2_def by (elim conjE disjE) simp_all
qed

lemma mu_nouveau_spec:
  "etend t (snd (t_mu_nouveau t)) \<and> fst (t_mu_nouveau t) = suivant t \<and>
   suivant t < suivant (snd (t_mu_nouveau t))"
proof -
  let ?self = "suivant t"
  let ?t0 = "t\<lparr>suivant := Suc ?self\<rparr>"
  let ?f = "\<lambda>t (_::int). t_map (\<lambda>t (_::int). t_pp_nouveau t) t range3"
  let ?r = "t_map ?f ?t0 range3"
  let ?t' = "(snd ?r)\<lparr>morpions := (morpions (snd ?r))(?self :=
                   \<lparr>o_plateaux = fst ?r, o_joueur_courant = SymX, o_plateau_actif = None,
                    o_jeu_termine_g = False, o_vainqueur_g = None\<rparr>)\<rparr>"
  have dev: "t_mu_nouveau t = (?self, ?t')"
    by (simp add: t_mu_nouveau_def Let_def split_def del: t_map.simps)
  have dedans: "etend t' (snd (t_map (\<lambda>t (_::int). t_pp_nouveau t) t' xs))" for t' xs
    using t_map_spec[where f = "\<lambda>t (_::int). t_pp_nouveau t" and P = "\<lambda>_ _. True"
        and R = "\<lambda>_ _ _. True" and t = t' and xs = xs] pp_nouveau_spec by simp
  have "etend ?t0 (snd ?r)"
    using t_map_spec[where f = ?f and P = "\<lambda>_ _. True" and R = "\<lambda>_ _ _. True"
        and t = ?t0 and xs = range3] dedans by simp
  then have "Suc ?self \<le> suivant (snd ?r)"
    and "\<forall>a < Suc ?self. lignes (snd ?r) a = lignes t a \<and> petits (snd ?r) a = petits t a \<and>
                       morpions (snd ?r) a = morpions t a"
    by (simp_all add: etend_def)
  then have "etend t ?t' \<and> ?self < suivant ?t'" by (simp add: etend_def)
  then show ?thesis by (simp only: dev fst_conv snd_conv simp_thms)
qed

lemma list_all2_droite:
  "list_all2 S xs ys \<Longrightarrow> \<forall>y \<in> set ys. \<exists>x \<in> set xs. S x y"
  by (induction xs ys rule: list_all2_induct) auto

lemma list_all2_map_eq:
  "list_all2 (\<lambda>x y. F y = v x) xs ys \<Longrightarrow> map F ys = map v xs"
  by (induction xs ys rule: list_all2_induct) auto

lemma lire_pp_morpions [simp]: "lire_pp (t\<lparr>morpions := m\<rparr>) = lire_pp t"
  by (rule ext) (simp add: lire_pp_def)

lemma mu_dupliquer_spec:
  assumes clos: "mu_clos t g" and forme: "mu_forme t g"
  shows "etend t (snd (t_mu_dupliquer t g)) \<and>
         suivant t \<le> fst (t_mu_dupliquer t g) \<and>
         lire_mu (snd (t_mu_dupliquer t g)) (fst (t_mu_dupliquer t g)) = lire_mu t g \<and>
         mu_frais (suivant t) (snd (t_mu_dupliquer t g)) (fst (t_mu_dupliquer t g)) \<and>
         mu_forme (snd (t_mu_dupliquer t g)) (fst (t_mu_dupliquer t g))"
proof -
  let ?n = "suivant t"
  let ?G = "o_plateaux (morpions t g)"
  let ?t1 = "snd (t_mu_nouveau t)"
  let ?fin = "\<lambda>i t j. t_pp_dupliquer t (at2 (o_plateaux (morpions t g)) i j)"
  let ?f = "\<lambda>t i. t_map (?fin i) t range3"
  let ?r = "t_map ?f ?t1 range3"
  let ?ps = "fst ?r" and ?t2 = "snd ?r"
  let ?t' = "?t2\<lparr>morpions := (morpions ?t2)(?n :=
               \<lparr>o_plateaux = ?ps,
                o_joueur_courant = o_joueur_courant (morpions ?t2 g),
                o_plateau_actif = o_plateau_actif (morpions ?t2 g),
                o_jeu_termine_g = o_jeu_termine_g (morpions ?t2 g),
                o_vainqueur_g = o_vainqueur_g (morpions ?t2 g)\<rparr>)\<rparr>"
  let ?Q = "\<lambda>ta i j y. pp_ok ?n (lire_pp t (at2 ?G i j)) ta y"
  from mu_nouveau_spec[of t] have e1: "etend t ?t1" and n: "fst (t_mu_nouveau t) = ?n" by simp_all
  have dev: "t_mu_dupliquer t g = (?n, ?t')"
    using n by (simp add: t_mu_dupliquer_def Let_def split_def)
  from forme have g33: "grille33 ?G" by (simp add: mu_forme_def)
  have src: "pp_clos t (at2 ?G i j) \<and> length (o_plateau (petits t (at2 ?G i j))) = 3"
    if "i \<in> set range3" "j \<in> set range3" for i j
  proof -
    from at2_dans_grille33[OF g33 that] obtain ps where "ps \<in> set ?G" "at2 ?G i j \<in> set ps"
      by blast
    with clos forme show ?thesis by (simp add: mu_clos_def mu_forme_def)
  qed
  have dedans: "etend ta (snd (t_map (?fin i) ta range3)) \<and>
                list_all2 (?Q (snd (t_map (?fin i) ta range3)) i) range3
                  (fst (t_map (?fin i) ta range3))"
    if eta: "etend t ta" and i: "i \<in> set range3" for ta i
  proof (rule t_map_spec[where P = "\<lambda>tb j. etend t tb \<and> j \<in> set range3"])
    fix tb j
    assume p: "etend t tb \<and> j \<in> set range3"
    then have etb: "etend t tb" and j: "j \<in> set range3" by simp_all
    from etend_mu(1)[OF clos etb] have m: "morpions tb g = morpions t g" .
    from src[OF i j] have c: "pp_clos t (at2 ?G i j)" by simp
    from etend_pp[OF c etb] have cb: "pp_clos tb (at2 ?G i j)"
      and lb: "lire_pp tb (at2 ?G i j) = lire_pp t (at2 ?G i j)" by simp_all
    from pp_dupliquer_spec[OF cb]
    have "etend tb (snd (t_pp_dupliquer tb (at2 ?G i j)))"
      and "pp_ok (suivant tb) (lire_pp t (at2 ?G i j)) (snd (t_pp_dupliquer tb (at2 ?G i j)))
             (fst (t_pp_dupliquer tb (at2 ?G i j)))"
      by (simp_all add: lb)
    moreover from etb have "?n \<le> suivant tb" by (simp add: etend_def)
    ultimately show "etend tb (snd (?fin i tb j)) \<and> ?Q (snd (?fin i tb j)) i j (fst (?fin i tb j))"
      using pp_ok_mono by (simp add: m)
  next
    fix tb tc j
    assume "etend t tb \<and> j \<in> set range3" "etend tb tc"
    then show "etend t tc \<and> j \<in> set range3" using etend_trans by blast
  next
    fix tb tc j y
    assume "?Q tb i j y" "etend tb tc"
    then show "?Q tc i j y" by (rule pp_ok_etend)
  next
    from eta show "\<forall>j \<in> set range3. etend t ta \<and> j \<in> set range3" by simp
  qed
  have dehors: "etend ?t1 ?t2 \<and>
                list_all2 (\<lambda>i ys. list_all2 (?Q ?t2 i) range3 ys) range3 ?ps"
  proof (rule t_map_spec[where P = "\<lambda>tb i. etend t tb \<and> i \<in> set range3"])
    fix tb i
    assume "etend t tb \<and> i \<in> set range3"
    then show "etend tb (snd (?f tb i)) \<and> list_all2 (?Q (snd (?f tb i)) i) range3 (fst (?f tb i))"
      using dedans by simp
  next
    fix tb tc i
    assume "etend t tb \<and> i \<in> set range3" "etend tb tc"
    then show "etend t tc \<and> i \<in> set range3" using etend_trans by blast
  next
    fix tb tc i ys
    assume a: "list_all2 (?Q tb i) range3 ys" and e: "etend tb tc"
    show "list_all2 (?Q tc i) range3 ys"
      by (rule list_all2_mono[OF a]) (rule pp_ok_etend[OF _ e])
  next
    from e1 show "\<forall>i \<in> set range3. etend t ?t1 \<and> i \<in> set range3" by simp
  qed
  then have e12: "etend ?t1 ?t2"
    and tout: "list_all2 (\<lambda>i ys. list_all2 (?Q ?t2 i) range3 ys) range3 ?ps" by simp_all
  have e2: "etend t ?t2" using e1 e12 by (rule etend_trans)
  from etend_mu(1)[OF clos e2] have m2: "morpions ?t2 g = morpions t g" .
  have e: "etend t ?t'" using e2 by (simp add: etend_def)
  \<comment> \<open>every new sub-board is fresh, closed, a copy, with three rows\<close>
  have chaque: "\<exists>i \<in> set range3. \<exists>j \<in> set range3. ?Q ?t2 i j y" if "ys \<in> set ?ps" "y \<in> set ys" for ys y
  proof -
    from list_all2_droite[OF tout] that(1) obtain i where i: "i \<in> set range3"
      and "list_all2 (?Q ?t2 i) range3 ys" by blast
    from list_all2_droite[OF this(2)] that(2) obtain j where "j \<in> set range3" "?Q ?t2 i j y"
      by blast
    with i show ?thesis by blast
  qed
  have frais: "mu_frais ?n ?t' ?n"
  proof -
    have "pp_frais ?n ?t2 y" if "ys \<in> set ?ps" "y \<in> set ys" for ys y
      using chaque[OF that] by (auto simp: pp_ok_def)
    then show ?thesis by (simp add: mu_frais_def pp_frais_def)
  qed
  have g33': "grille33 ?ps"
  proof -
    from tout have "length ?ps = 3" by (auto dest: list_all2_lengthD)
    moreover have "length ys = 3" if "ys \<in> set ?ps" for ys
    proof -
      from list_all2_droite[OF tout] that obtain i where "list_all2 (?Q ?t2 i) range3 ys" by blast
      then show ?thesis by (auto dest: list_all2_lengthD)
    qed
    ultimately show ?thesis by (simp add: grille33_def list_all_iff)
  qed
  have forme': "mu_forme ?t' ?n"
  proof -
    have "length (o_plateau (petits ?t2 y)) = 3" if "ys \<in> set ?ps" "y \<in> set ys" for ys y
    proof -
      from chaque[OF that] obtain i j where ij: "i \<in> set range3" "j \<in> set range3"
        and q: "?Q ?t2 i j y" by blast
      from q have "length (o_plateau (petits ?t2 y)) = length (plateau (lire_pp t (at2 ?G i j)))"
        by (simp add: pp_ok_def)
      with src[OF ij] show ?thesis by (simp add: lire_pp_def)
    qed
    with g33' show ?thesis by (simp add: mu_forme_def)
  qed
  have lire: "lire_mu ?t' ?n = lire_mu t g"
  proof -
    have ligne: "map (lire_pp ?t2) ys = map (\<lambda>j. lire_pp t (at2 ?G i j)) range3"
      if "list_all2 (?Q ?t2 i) range3 ys" for i ys
    proof (rule list_all2_map_eq)
      show "list_all2 (\<lambda>j y. lire_pp ?t2 y = lire_pp t (at2 ?G i j)) range3 ys"
        by (rule list_all2_mono[OF that]) (simp add: pp_ok_def)
    qed
    have "map (map (lire_pp ?t2)) ?ps = map (\<lambda>i. map (\<lambda>j. lire_pp t (at2 ?G i j)) range3) range3"
    proof (rule list_all2_map_eq)
      show "list_all2 (\<lambda>i ys. map (lire_pp ?t2) ys = map (\<lambda>j. lire_pp t (at2 ?G i j)) range3)
              range3 ?ps"
        by (rule list_all2_mono[OF tout]) (rule ligne)
    qed
    also have "\<dots> = map (map (lire_pp t)) ?G"
      by (rule map_map_grille33[OF g33, symmetric])
    finally have "map (map (lire_pp ?t2)) ?ps = map (map (lire_pp t)) ?G" .
    then show ?thesis by (simp add: lire_mu_def m2)
  qed
  from e lire frais forme' show ?thesis
    by (simp only: dev fst_conv snd_conv simp_thms order_refl)
qed

section \<open>What a move may write\<close>

lemma cadre_refl: "cadre g t t"
  by (simp add: cadre_def)

lemma pp_jouer_coup_cadre:
  assumes "length (o_plateau (petits t p)) = 3"
  shows "morpions (snd (t_pp_jouer_coup t p l c j)) = morpions t \<and>
         (\<forall>x. o_plateau (petits (snd (t_pp_jouer_coup t p l c j)) x) = o_plateau (petits t x)) \<and>
         (\<forall>x. x \<noteq> p \<longrightarrow> petits (snd (t_pp_jouer_coup t p l c j)) x = petits t x) \<and>
         (\<forall>x. x \<notin> set (o_plateau (petits t p)) \<longrightarrow>
               lignes (snd (t_pp_jouer_coup t p l c j)) x = lignes t x)"
proof (cases "pp_coup_valide (lire_pp t p) l c")
  case False
  then show ?thesis by (simp add: t_pp_jouer_coup_def)
next
  case True
  then have "0 \<le> l" "l < 3" by (simp_all add: pp_coup_valide_def)
  with assms have "o_plateau (petits t p) ! nat l \<in> set (o_plateau (petits t p))" by simp
  then have "\<forall>x. x \<notin> set (o_plateau (petits t p)) \<longrightarrow> x \<noteq> o_plateau (petits t p) ! nat l"
    by blast
  with True show ?thesis by (simp add: t_pp_jouer_coup_def Let_def)
qed

lemma mu_jouer_coup_cadre:
  assumes forme: "mu_forme t g"
  shows "cadre g t (snd (t_mu_jouer_coup t g a b r c))"
proof (cases "\<not> mu_coup_valide (lire_mu t g) a b r c \<or> o_jeu_termine_g (morpions t g)")
  case True
  then show ?thesis by (simp add: t_mu_jouer_coup_def cadre_refl)
next
  case False
  let ?pl = "at2 (o_plateaux (morpions t g)) a b"
  let ?t1 = "snd (t_pp_jouer_coup t ?pl r c (o_joueur_courant (morpions t g)))"
  from False have "mu_coup_valide (lire_mu t g) a b r c" by simp
  then have ab: "0 \<le> a" "a < 3" "0 \<le> b" "b < 3"
    by (simp_all add: mu_coup_valide_def split: if_splits)
  then have "a \<in> set range3" "b \<in> set range3" using dans_range3[of a] dans_range3[of b] by auto
  with forme at2_dans_grille33[of "o_plateaux (morpions t g)" a b]
  obtain ps where ps: "ps \<in> set (o_plateaux (morpions t g))" "?pl \<in> set ps"
    by (auto simp: mu_forme_def)
  with forme have len: "length (o_plateau (petits t ?pl)) = 3" by (simp add: mu_forme_def)
  from ps have dp: "?pl \<in> pets t g" by (auto simp: pets_def)
  then have dl: "set (o_plateau (petits t ?pl)) \<subseteq> ligs t g" by (auto simp: ligs_def)
  note c1 = pp_jouer_coup_cadre[OF len, of r c "o_joueur_courant (morpions t g)"]
  have base: "cadre g t ?t1"
    unfolding cadre_def
  proof (intro conjI allI impI)
    fix x show "o_plateaux (morpions ?t1 x) = o_plateaux (morpions t x)" using c1 by simp
    show "o_plateau (petits ?t1 x) = o_plateau (petits t x)" using c1 by simp
    assume "x \<noteq> g" then show "morpions ?t1 x = morpions t x" using c1 by simp
  next
    fix x assume "x \<notin> pets t g"
    with dp have "x \<noteq> ?pl" by blast
    with c1 show "petits ?t1 x = petits t x" by simp
  next
    fix x assume "x \<notin> ligs t g"
    with dl have "x \<notin> set (o_plateau (petits t ?pl))" by blast
    with c1 show "lignes ?t1 x = lignes t x" by simp
  qed
  have champs: "cadre g t (t2\<lparr>morpions := (morpions t2)(g := (morpions t2 g)
                   \<lparr>o_jeu_termine_g := jt, o_vainqueur_g := vq,
                    o_plateau_actif := pa, o_joueur_courant := jc\<rparr>)\<rparr>)"
    if "cadre g t t2" for t2 jt vq pa jc
    using that by (simp add: cadre_def)
  show ?thesis
  proof (cases "fst (t_pp_jouer_coup t ?pl r c (o_joueur_courant (morpions t g)))")
    case ok: False
    with False base show ?thesis by (simp add: t_mu_jouer_coup_def Let_def split_def)
  next
    case ok: True
    have eq: "snd (t_mu_jouer_coup t g a b r c) =
      ?t1\<lparr>morpions := (morpions ?t1)(g := (morpions ?t1 g)
         \<lparr>o_jeu_termine_g := o_jeu_termine_g (morpions (snd (t_mu_jouer_coup t g a b r c)) g),
          o_vainqueur_g := o_vainqueur_g (morpions (snd (t_mu_jouer_coup t g a b r c)) g),
          o_plateau_actif := o_plateau_actif (morpions (snd (t_mu_jouer_coup t g a b r c)) g),
          o_joueur_courant := o_joueur_courant (morpions (snd (t_mu_jouer_coup t g a b r c)) g)\<rparr>)\<rparr>"
      using False ok by (simp add: t_mu_jouer_coup_def Let_def split_def)
    show ?thesis by (subst eq) (rule champs[OF base])
  qed
qed

lemma cadre_conserve:
  assumes c: "cadre g t t1"
  shows "pets t1 x = pets t x" "ligs t1 x = ligs t x" "mu_forme t1 x = mu_forme t x"
    "separes t1 x y = separes t x y"
proof -
  from c show p: "pets t1 x = pets t x" for x by (simp add: cadre_def pets_def)
  from c p show l: "ligs t1 x = ligs t x" for x by (simp add: cadre_def ligs_def)
  from c show "mu_forme t1 x = mu_forme t x" by (simp add: cadre_def mu_forme_def)
  from p l show "separes t1 x y = separes t x y" by (simp add: separes_def)
qed

lemma cadre_lire:
  assumes c: "cadre g t t1" and s: "separes t g x"
  shows "lire_mu t1 x = lire_mu t x"
proof -
  from s have ne: "x \<noteq> g" and dp: "pets t g \<inter> pets t x = {}" and dl: "ligs t g \<inter> ligs t x = {}"
    by (auto simp: separes_def)
  from c ne have m: "morpions t1 x = morpions t x" by (simp add: cadre_def)
  have pp: "lire_pp t1 p = lire_pp t p" if "ps \<in> set (o_plateaux (morpions t x))" "p \<in> set ps" for ps p
  proof -
    from that have px: "p \<in> pets t x" by (auto simp: pets_def)
    with dp have "p \<notin> pets t g" by blast
    with c have pe: "petits t1 p = petits t p" by (simp add: cadre_def)
    have "lignes t1 l = lignes t l" if "l \<in> set (o_plateau (petits t p))" for l
    proof -
      from that px have "l \<in> ligs t x" by (auto simp: ligs_def)
      with dl have "l \<notin> ligs t g" by blast
      with c show ?thesis by (simp add: cadre_def)
    qed
    then have "map (lignes t1) (o_plateau (petits t p)) = map (lignes t) (o_plateau (petits t p))"
      by simp
    with pe show ?thesis by (simp add: lire_pp_def)
  qed
  then have "map (map (lire_pp t1)) (o_plateaux (morpions t x)) =
             map (map (lire_pp t)) (o_plateaux (morpions t x))" by simp
  with m show ?thesis by (simp add: lire_mu_def)
qed

lemma mu_jouer_suite_isole:
  "mu_forme t g \<Longrightarrow> separes t g x \<Longrightarrow> lire_mu (t_mu_jouer_suite t g ms) x = lire_mu t x"
proof (induction ms arbitrary: t)
  case Nil
  then show ?case by simp
next
  case (Cons m ms)
  obtain a b r c where m: "m = (a, b, r, c)" by (cases m)
  let ?t1 = "snd (t_mu_jouer_coup t g a b r c)"
  from mu_jouer_coup_cadre[OF Cons.prems(1)] have c: "cadre g t ?t1" .
  from cadre_conserve(3)[OF c] Cons.prems(1) have f1: "mu_forme ?t1 g" by simp
  from cadre_conserve(4)[OF c] Cons.prems(2) have s1: "separes ?t1 g x" by simp
  from Cons.IH[OF f1 s1] cadre_lire[OF c Cons.prems(2)] show ?case by (simp add: m)
qed

section \<open>What the constructor builds, what a move writes\<close>

lemma mu_nouveau_ok:
  "mu_clos (snd (t_mu_nouveau t)) (fst (t_mu_nouveau t)) \<and>
   mu_forme (snd (t_mu_nouveau t)) (fst (t_mu_nouveau t)) \<and>
   lire_mu (snd (t_mu_nouveau t)) (fst (t_mu_nouveau t)) = mu_reinitialiser"
proof -
  let ?self = "suivant t"
  let ?t0 = "t\<lparr>suivant := Suc ?self\<rparr>"
  let ?fin = "\<lambda>t (_::int). t_pp_nouveau t"
  let ?f = "\<lambda>t (_::int). t_map ?fin t range3"
  let ?r = "t_map ?f ?t0 range3"
  let ?ps = "fst ?r" and ?t1 = "snd ?r"
  let ?t' = "?t1\<lparr>morpions := (morpions ?t1)(?self :=
                   \<lparr>o_plateaux = ?ps, o_joueur_courant = SymX, o_plateau_actif = None,
                    o_jeu_termine_g = False, o_vainqueur_g = None\<rparr>)\<rparr>"
  let ?Q = "\<lambda>ta (_::int) y. pp_ok (Suc ?self) pp_reinitialiser ta y"
  have dev: "t_mu_nouveau t = (?self, ?t')"
    by (simp add: t_mu_nouveau_def Let_def split_def)
  have dedans: "etend ta (snd (t_map ?fin ta range3)) \<and>
                list_all2 (?Q (snd (t_map ?fin ta range3))) range3 (fst (t_map ?fin ta range3))"
    if "etend ?t0 ta" for ta
  proof (rule t_map_spec[where P = "\<lambda>tb _. etend ?t0 tb"])
    fix tb and j :: int
    assume e: "etend ?t0 tb"
    then have "Suc ?self \<le> suivant tb" by (simp add: etend_def)
    with pp_nouveau_spec[of tb] pp_ok_mono
    show "etend tb (snd (t_pp_nouveau tb)) \<and> ?Q (snd (t_pp_nouveau tb)) j (fst (t_pp_nouveau tb))"
      by blast
  next
    fix tb tc and j :: int
    assume "etend ?t0 tb" "etend tb tc"
    then show "etend ?t0 tc" by (rule etend_trans)
  next
    fix tb tc y and j :: int
    assume "?Q tb j y" "etend tb tc"
    then show "?Q tc j y" by (rule pp_ok_etend)
  next
    from that show "\<forall>j \<in> set range3. etend ?t0 ta" by simp
  qed
  have dehors: "etend ?t0 ?t1 \<and> list_all2 (\<lambda>i ys. list_all2 (?Q ?t1) range3 ys) range3 ?ps"
  proof (rule t_map_spec[where P = "\<lambda>tb _. etend ?t0 tb"])
    fix tb and i :: int
    assume "etend ?t0 tb"
    then show "etend tb (snd (?f tb i)) \<and> list_all2 (?Q (snd (?f tb i))) range3 (fst (?f tb i))"
      by (rule dedans)
  next
    fix tb tc and i :: int
    assume "etend ?t0 tb" "etend tb tc"
    then show "etend ?t0 tc" by (rule etend_trans)
  next
    fix tb tc ys and i :: int
    assume a: "list_all2 (?Q tb) range3 ys" and e: "etend tb tc"
    show "list_all2 (?Q tc) range3 ys"
      by (rule list_all2_mono[OF a]) (rule pp_ok_etend[OF _ e])
  next
    show "\<forall>i \<in> set range3. etend ?t0 ?t0" by (simp add: etend_refl)
  qed
  then have e01: "etend ?t0 ?t1"
    and tout: "list_all2 (\<lambda>i ys. list_all2 (?Q ?t1) range3 ys) range3 ?ps" by simp_all
  from e01 have s: "?self < suivant ?t1" by (simp add: etend_def)
  have chaque: "pp_ok (Suc ?self) pp_reinitialiser ?t1 y" if "ys \<in> set ?ps" "y \<in> set ys" for ys y
  proof -
    from list_all2_droite[OF tout] that(1) obtain i :: int where "list_all2 (?Q ?t1) range3 ys"
      by blast
    from list_all2_droite[OF this] that(2) show ?thesis by blast
  qed
  have g33: "grille33 ?ps"
  proof -
    from tout have "length ?ps = 3" by (auto dest: list_all2_lengthD)
    moreover have "length ys = 3" if "ys \<in> set ?ps" for ys
    proof -
      from list_all2_droite[OF tout] that obtain i :: int where "list_all2 (?Q ?t1) range3 ys"
        by blast
      then show ?thesis by (auto dest: list_all2_lengthD)
    qed
    ultimately show ?thesis by (simp add: grille33_def list_all_iff)
  qed
  have clos: "mu_clos ?t' ?self"
  proof -
    have "pp_clos ?t1 y" if "ys \<in> set ?ps" "y \<in> set ys" for ys y
      using chaque[OF that] by (simp add: pp_ok_def)
    with s show ?thesis by (simp add: mu_clos_def pp_clos_def)
  qed
  have forme: "mu_forme ?t' ?self"
  proof -
    have "length (o_plateau (petits ?t1 y)) = 3" if "ys \<in> set ?ps" "y \<in> set ys" for ys y
      using chaque[OF that] by (simp add: pp_ok_def pp_reinitialiser_def)
    with g33 show ?thesis by (simp add: mu_forme_def)
  qed
  have lire: "lire_mu ?t' ?self = mu_reinitialiser"
  proof -
    have ligne: "map (lire_pp ?t1) ys = map (\<lambda>_. pp_reinitialiser) range3"
      if "list_all2 (?Q ?t1) range3 ys" for ys
    proof (rule list_all2_map_eq)
      show "list_all2 (\<lambda>(j::int) y. lire_pp ?t1 y = pp_reinitialiser) range3 ys"
        by (rule list_all2_mono[OF that]) (simp add: pp_ok_def)
    qed
    have "map (map (lire_pp ?t1)) ?ps = map (\<lambda>_. map (\<lambda>_. pp_reinitialiser) range3) range3"
    proof (rule list_all2_map_eq)
      show "list_all2 (\<lambda>(i::int) ys. map (lire_pp ?t1) ys = map (\<lambda>_. pp_reinitialiser) range3)
              range3 ?ps"
        by (rule list_all2_mono[OF tout]) (rule ligne)
    qed
    then show ?thesis by (simp add: lire_mu_def mu_reinitialiser_def)
  qed
  from clos forme lire show ?thesis by (simp only: dev fst_conv snd_conv simp_thms)
qed

lemma at2_map_map:
  assumes "grille33 g" "0 \<le> i" "i < 3" "0 \<le> j" "j < 3"
  shows "at2 (map (map f) g) i j = f (at2 g i j)"
proof -
  from assms have i: "nat i < length g" by (simp add: grille33_def)
  then have "g ! nat i \<in> set g" by simp
  with assms have "nat j < length (g ! nat i)" by (simp add: grille33_def list_all_iff)
  with i show ?thesis by (simp add: at2_def)
qed

text \<open>
  A move that \<^verbatim>\<open>jouer_coup\<close> accepts is visible in the object it was played on: the
  cell holds the symbol of the player who moved.
\<close>

lemma t_mu_jouer_coup_ecrit:
  assumes forme: "mu_forme t g"
    and valide: "mu_coup_valide (lire_mu t g) a b r c"
    and encours: "\<not> o_jeu_termine_g (morpions t g)"
    and large: "nat c < length (plateau (at2 (plateaux (lire_mu t g)) a b) ! nat r)"
  shows "at2 (plateau (at2 (plateaux (lire_mu (snd (t_mu_jouer_coup t g a b r c)) g)) a b)) r c
           = o_joueur_courant (morpions t g)"
proof -
  let ?G = "o_plateaux (morpions t g)"
  let ?pl = "at2 ?G a b"
  let ?j = "o_joueur_courant (morpions t g)"
  let ?la = "o_plateau (petits t ?pl) ! nat r"
  let ?t1 = "snd (t_pp_jouer_coup t ?pl r c ?j)"
  let ?tf = "snd (t_mu_jouer_coup t g a b r c)"
  from forme have g33: "grille33 ?G" by (simp add: mu_forme_def)
  from valide have ab: "0 \<le> a" "a < 3" "0 \<le> b" "b < 3"
    by (simp_all add: mu_coup_valide_def split: if_splits)
  have lec: "at2 (plateaux (lire_mu t g)) a b = lire_pp t ?pl"
    by (simp add: lire_mu_def at2_map_map[OF g33 ab])
  with valide ab have pv: "pp_coup_valide (lire_pp t ?pl) r c"
    by (simp add: mu_coup_valide_def Let_def split: if_splits)
  then have rc: "0 \<le> r" "r < 3" by (simp_all add: pp_coup_valide_def)
  from ab have "a \<in> set range3" "b \<in> set range3" using dans_range3[of a] dans_range3[of b] by auto
  with g33 at2_dans_grille33[of ?G a b]
  obtain ps where ps: "ps \<in> set ?G" "?pl \<in> set ps" by auto
  with forme have len: "length (o_plateau (petits t ?pl)) = 3" by (simp add: mu_forme_def)
  from pv have ok: "fst (t_pp_jouer_coup t ?pl r c ?j)" by (simp add: t_pp_jouer_coup_def Let_def)
  from pv have l1: "lignes ?t1 ?la = (lignes t ?la)[nat c := ?j]"
    by (simp add: t_pp_jouer_coup_def Let_def)
  from valide encours ok have lf: "lignes ?tf = lignes ?t1"
    by (simp add: t_mu_jouer_coup_def Let_def split_def)
  from mu_jouer_coup_cadre[OF forme, of a b r c]
  have Gf: "o_plateaux (morpions ?tf g) = ?G" and rf: "o_plateau (petits ?tf ?pl) = o_plateau (petits t ?pl)"
    by (simp_all add: cadre_def)
  have lecf: "at2 (plateaux (lire_mu ?tf g)) a b = lire_pp ?tf ?pl"
    by (simp add: lire_mu_def Gf at2_map_map[OF g33 ab])
  from large lec rc len have lg: "nat c < length (lignes t ?la)"
    by (simp add: lire_pp_def)
  have "plateau (lire_pp ?tf ?pl) = map (lignes ?tf) (o_plateau (petits t ?pl))"
    by (simp add: lire_pp_def rf)
  with rc len have "at2 (plateau (lire_pp ?tf ?pl)) r c = lignes ?tf ?la ! nat c"
    by (simp add: at2_def[of "map f xs" for f xs])
  also from lg have "\<dots> = ?j" by (simp add: lf l1)
  finally show ?thesis by (simp add: lecf)
qed

text \<open>
  Closed and well shaped is what the constructor establishes (\<open>mu_nouveau_ok\<close>) and what
  every call of \<^verbatim>\<open>jouer_coup\<close> keeps.
\<close>

lemma t_mu_jouer_coup_suivant: "suivant (snd (t_mu_jouer_coup t g a b r c)) = suivant t"
  by (simp add: t_mu_jouer_coup_def t_pp_jouer_coup_def Let_def split_def)

lemma t_mu_jouer_coup_invariant:
  assumes clos: "mu_clos t g" and forme: "mu_forme t g"
  shows "mu_clos (snd (t_mu_jouer_coup t g a b r c)) g \<and>
         mu_forme (snd (t_mu_jouer_coup t g a b r c)) g"
proof -
  let ?tf = "snd (t_mu_jouer_coup t g a b r c)"
  from mu_jouer_coup_cadre[OF forme, of a b r c] have c: "cadre g t ?tf" .
  then have "o_plateaux (morpions ?tf g) = o_plateaux (morpions t g)"
    and "\<And>x. o_plateau (petits ?tf x) = o_plateau (petits t x)"
    by (simp_all add: cadre_def)
  with clos have "mu_clos ?tf g"
    by (simp add: mu_clos_def pp_clos_def t_mu_jouer_coup_suivant)
  with cadre_conserve(3)[OF c] forme show ?thesis by simp
qed

section \<open>The clone shares nothing with its source\<close>

lemma pp_dupliquer_id: "pp_dupliquer sp = sp"
  by (simp add: pp_dupliquer_def)

lemma mu_dupliquer_id:
  assumes "grille33 (plateaux v)"
  shows "mu_dupliquer v = v"
proof -
  have "map (\<lambda>i. map (\<lambda>j. pp_dupliquer (at2 (plateaux v) i j)) range3) range3 =
        map (map pp_dupliquer) (plateaux v)"
    by (rule map_map_grille33[OF assms, symmetric])
  also have "\<dots> = plateaux v" by (simp add: pp_dupliquer_id[abs_def])
  finally show ?thesis by (simp add: mu_dupliquer_def)
qed

lemma grille33_map: "grille33 g \<Longrightarrow> grille33 (map (map f) g)"
  by (simp add: grille33_def list_all_iff)

lemma separes_apres_copie:
  assumes clos: "mu_clos t' g" and bas: "g < n" "\<forall>p \<in> pets t' g. p < n"
    "\<forall>l \<in> ligs t' g. l < n" and frais: "mu_frais n t' c"
  shows "separes t' g c" "separes t' c g"
proof -
  from frais have c: "n \<le> c" by (simp add: mu_frais_def)
  from frais have pc: "\<forall>p \<in> pets t' c. n \<le> p"
    by (auto simp: mu_frais_def pets_def pp_frais_def)
  from frais have lc: "\<forall>l \<in> ligs t' c. n \<le> l"
    by (auto simp: mu_frais_def pets_def ligs_def pp_frais_def)
  from bas(2) pc have dp: "pets t' g \<inter> pets t' c = {}" by fastforce
  from bas(3) lc have dl: "ligs t' g \<inter> ligs t' c = {}" by fastforce
  from bas(1) c dp dl show "separes t' g c" by (simp add: separes_def)
  from bas(1) c dp dl show "separes t' c g" by (auto simp: separes_def)
qed

text \<open>
  Claim C8. Let the board object \<open>g\<close> be closed and well shaped in the store \<open>t\<close>, and
  let \<^verbatim>\<open>dupliquer\<close> return the object \<open>c\<close> in the store \<open>t'\<close>. Then the value of \<open>c\<close> equals
  the value of \<open>g\<close> in every field (it is what \<open>mu_dupliquer\<close> computes in the value
  model), the value of \<open>g\<close> is unchanged by the call, no run of \<^verbatim>\<open>jouer_coup\<close> calls on
  \<open>c\<close> changes the value of \<open>g\<close>, and no run of \<^verbatim>\<open>jouer_coup\<close> calls on \<open>g\<close> changes the
  value of \<open>c\<close>.
\<close>

theorem clone_independant:
  "mu_clos t g \<longrightarrow> mu_forme t g \<longrightarrow>
   (let c = fst (t_mu_dupliquer t g); t' = snd (t_mu_dupliquer t g) in
      lire_mu t' c = lire_mu t g \<and>
      lire_mu t' c = mu_dupliquer (lire_mu t g) \<and>
      lire_mu t' g = lire_mu t g \<and>
      (\<forall>ms. lire_mu (t_mu_jouer_suite t' c ms) g = lire_mu t g) \<and>
      (\<forall>ms. lire_mu (t_mu_jouer_suite t' g ms) c = lire_mu t' c))"
proof (intro impI)
  assume clos: "mu_clos t g" and forme: "mu_forme t g"
  let ?c = "fst (t_mu_dupliquer t g)" and ?t' = "snd (t_mu_dupliquer t g)"
  let ?n = "suivant t"
  from mu_dupliquer_spec[OF clos forme]
  have e: "etend t ?t'" and l: "lire_mu ?t' ?c = lire_mu t g"
    and fr: "mu_frais ?n ?t' ?c" and fo: "mu_forme ?t' ?c" by simp_all
  from etend_mu[OF clos e]
  have mg: "morpions ?t' g = morpions t g" and lg: "lire_mu ?t' g = lire_mu t g"
    and cg: "mu_clos ?t' g" by simp_all
  have pg: "petits ?t' p = petits t p \<and> p < ?n \<and> (\<forall>l \<in> set (o_plateau (petits t p)). l < ?n)"
    if "p \<in> pets t g" for p
  proof -
    from that clos have pc: "pp_clos t p" by (auto simp: pets_def mu_clos_def)
    from etend_pp(1)[OF pc e] pc show ?thesis by (simp add: pp_clos_def)
  qed
  have pets_g: "pets ?t' g = pets t g" by (simp add: pets_def mg)
  have fog: "mu_forme ?t' g"
  proof -
    have "length (o_plateau (petits ?t' p)) = 3"
      if "ps \<in> set (o_plateaux (morpions t g))" "p \<in> set ps" for ps p
    proof -
      from that have "p \<in> pets t g" by (auto simp: pets_def)
      from pg[OF this] forme that show ?thesis by (simp add: mu_forme_def)
    qed
    with forme show ?thesis by (simp add: mu_forme_def mg)
  qed
  from clos have b1: "g < ?n" by (simp add: mu_clos_def)
  from pg pets_g have b2: "\<forall>p \<in> pets ?t' g. p < ?n" by simp
  have b3: "\<forall>l \<in> ligs ?t' g. l < ?n"
  proof
    fix l assume "l \<in> ligs ?t' g"
    then obtain p where "p \<in> pets t g" "l \<in> set (o_plateau (petits ?t' p))"
      by (auto simp: ligs_def pets_g)
    with pg[of p] show "l < ?n" by simp
  qed
  note sep = separes_apres_copie[OF cg b1 b2 b3 fr]
  have v: "mu_dupliquer (lire_mu t g) = lire_mu t g"
  proof (rule mu_dupliquer_id)
    from forme have "grille33 (o_plateaux (morpions t g))" by (simp add: mu_forme_def)
    then show "grille33 (plateaux (lire_mu t g))" by (simp add: lire_mu_def grille33_map)
  qed
  have i1: "lire_mu (t_mu_jouer_suite ?t' ?c ms) g = lire_mu t g" for ms
    using mu_jouer_suite_isole[OF fo sep(2), of ms] lg by simp
  have i2: "lire_mu (t_mu_jouer_suite ?t' g ms) ?c = lire_mu ?t' ?c" for ms
    by (rule mu_jouer_suite_isole[OF fog sep(1)])
  from l v lg i1 i2 show "let c = ?c; t' = ?t' in
      lire_mu t' c = lire_mu t g \<and>
      lire_mu t' c = mu_dupliquer (lire_mu t g) \<and>
      lire_mu t' g = lire_mu t g \<and>
      (\<forall>ms. lire_mu (t_mu_jouer_suite t' c ms) g = lire_mu t g) \<and>
      (\<forall>ms. lire_mu (t_mu_jouer_suite t' g ms) c = lire_mu t' c)"
    unfolding Let_def by (intro conjI allI) simp_all
qed

theorem clone_independant_witness:
  "mu_clos tas_depart jeu_depart \<and> mu_forme tas_depart jeu_depart \<and>
   lire_mu tas_depart jeu_depart = mu_reinitialiser \<and>
   lire_mu tas_copie jeu_copie = mu_reinitialiser \<and>
   at2 (plateau (at2 (plateaux
          (lire_mu (t_mu_jouer_suite tas_copie jeu_copie [(0, 0, 1, 1)]) jeu_copie)) 0 0)) 1 1 = SymX \<and>
   lire_mu (t_mu_jouer_suite tas_copie jeu_copie [(0, 0, 1, 1)]) jeu_depart = mu_reinitialiser \<and>
   lire_mu (t_mu_jouer_suite tas_copie jeu_depart [(0, 0, 1, 1), (1, 1, 2, 2)]) jeu_copie
     = mu_reinitialiser"
proof -
  from mu_nouveau_ok[of tas_vide]
  have c: "mu_clos tas_depart jeu_depart" and f: "mu_forme tas_depart jeu_depart"
    and v: "lire_mu tas_depart jeu_depart = mu_reinitialiser"
    by (simp_all add: tas_depart_def jeu_depart_def)
  note th = clone_independant[of tas_depart jeu_depart, unfolded Let_def, rule_format, OF c f,
      folded tas_copie_def jeu_copie_def]
  from th v have e1: "lire_mu tas_copie jeu_copie = mu_reinitialiser" by simp
  from th v have e2: "lire_mu (t_mu_jouer_suite tas_copie jeu_copie [(0, 0, 1, 1)]) jeu_depart
                        = mu_reinitialiser"
    by (simp only:)
  from th e1
  have e3: "lire_mu (t_mu_jouer_suite tas_copie jeu_depart [(0, 0, 1, 1), (1, 1, 2, 2)]) jeu_copie
              = mu_reinitialiser"
    by (simp only:)
  from mu_dupliquer_spec[OF c f] have fc: "mu_forme tas_copie jeu_copie"
    by (simp add: tas_copie_def jeu_copie_def)
  have champs: "o_jeu_termine_g (morpions tas_copie jeu_copie) = jeu_termine_g (lire_mu tas_copie jeu_copie)"
    "o_joueur_courant (morpions tas_copie jeu_copie) = joueur_courant (lire_mu tas_copie jeu_copie)"
    by (simp_all add: lire_mu_def)
  have h1: "mu_coup_valide (lire_mu tas_copie jeu_copie) 0 0 1 1"
    unfolding e1 by code_simp
  have h2: "\<not> o_jeu_termine_g (morpions tas_copie jeu_copie)"
    unfolding champs e1 by code_simp
  have h3: "nat 1 < length (plateau (at2 (plateaux (lire_mu tas_copie jeu_copie)) 0 0) ! nat 1)"
    unfolding e1 by code_simp
  have j: "o_joueur_courant (morpions tas_copie jeu_copie) = SymX"
    unfolding champs e1 by code_simp
  from t_mu_jouer_coup_ecrit[OF fc h1 h2 h3] j
  have e4: "at2 (plateau (at2 (plateaux
          (lire_mu (t_mu_jouer_suite tas_copie jeu_copie [(0, 0, 1, 1)]) jeu_copie)) 0 0)) 1 1 = SymX"
    by simp
  from c f v e1 e4 e2 e3 show ?thesis by (simp only: simp_thms)
qed

end
